theory Spec2Isabelle
  imports Main "HOL-Library.Word"
begin

section \<open>Errors\<close>

text \<open>
  Go errors are values. \<open>Upstream\<close> stands for an error produced by a remote collaborator
  (transport failure or non-success status), \<open>ContextCanceled\<close> for \<open>ctx.Err()\<close>,
  \<open>Plain\<close> for \<open>fmt.Errorf\<close> without a cause and \<open>Wrap\<close> for \<open>fmt.Errorf\<close> with
  \<open>%w\<close>: a prefix and the wrapped cause.
\<close>

datatype err =
    Upstream string
  | ContextCanceled
  | Plain string
  | Wrap string err

section \<open>The retry executor (internal/ddns/retry.go)\<close>

text \<open>
  \<open>time.Duration\<close> is a signed 64-bit count of nanoseconds; \<open>delay *= 2\<close> wraps.
\<close>

definition wrap64 :: "int \<Rightarrow> int" where
  "wrap64 x = (x + 2 ^ 63) mod 2 ^ 64 - 2 ^ 63"

definition next_delay :: "int \<Rightarrow> int \<Rightarrow> int" where
  "next_delay maxDelay delay =
     (let d = wrap64 (delay * 2) in if d > maxDelay then maxDelay else d)"

text \<open>
  The loop of \<open>retry\<close>. The operation \<open>fn\<close> receives the attempt number and returns
  \<open>None\<close> for a nil error. \<open>wait\<close> is the \<open>select\<close> on the timer and \<open>ctx.Done()\<close>:
  it returns \<open>True\<close> when the context is cancelled before the timer fires.
\<close>

function retry_loop ::
  "('s \<Rightarrow> int \<Rightarrow> err option \<times> 's) \<Rightarrow> (int \<Rightarrow> 's \<Rightarrow> bool \<times> 's) \<Rightarrow>
   int \<Rightarrow> int \<Rightarrow> int \<Rightarrow> int \<Rightarrow> err option \<Rightarrow> 's \<Rightarrow> err option \<times> 's" where
  "retry_loop fn wait maxDelay attempts attempt delay lastErr s =
     (if attempt \<le> attempts then
        (case fn s attempt of
           (None, s1) \<Rightarrow> (None, s1)
         | (Some e, s1) \<Rightarrow>
             if attempt = attempts then (Some e, s1)
             else (case wait delay s1 of
                     (True, s2) \<Rightarrow> (Some ContextCanceled, s2)
                   | (False, s2) \<Rightarrow>
                       retry_loop fn wait maxDelay attempts (attempt + 1)
                         (next_delay maxDelay delay) (Some e) s2))
      else (lastErr, s))"
  by pat_completeness auto
termination
  by (relation "measure (\<lambda>(fn, wait, maxDelay, attempts, attempt, delay, lastErr, s).
        nat (attempts + 1 - attempt))") auto

definition retry ::
  "int \<Rightarrow> int \<Rightarrow> int \<Rightarrow> ('s \<Rightarrow> int \<Rightarrow> err option \<times> 's) \<Rightarrow>
   (int \<Rightarrow> 's \<Rightarrow> bool \<times> 's) \<Rightarrow> 's \<Rightarrow> err option \<times> 's" where
  "retry attempts baseDelay maxDelay fn wait s =
     retry_loop fn wait maxDelay (if attempts \<le> 0 then 1 else attempts) 1 baseDelay None s"

subsection \<open>A harness that counts invocations and records waits\<close>

text \<open>
  To observe a run of the executor, the state counts the invocations of the operation and
  lists the delays waited for. \<open>out n\<close> is the outcome of invocation number \<open>n\<close>;
  \<open>can i\<close> tells whether the context is cancelled during wait number \<open>i\<close> (from 0).
\<close>

record harness =
  invocations :: nat
  waited :: "int list"

definition h0 :: harness where
  "h0 = \<lparr>invocations = 0, waited = []\<rparr>"

definition h_op :: "(int \<Rightarrow> err option) \<Rightarrow> harness \<Rightarrow> int \<Rightarrow> err option \<times> harness" where
  "h_op out s n = (out n, s\<lparr>invocations := Suc (invocations s)\<rparr>)"

definition h_wait :: "(nat \<Rightarrow> bool) \<Rightarrow> int \<Rightarrow> harness \<Rightarrow> bool \<times> harness" where
  "h_wait can d s = (can (length (waited s)), s\<lparr>waited := waited s @ [d]\<rparr>)"

definition never :: "nat \<Rightarrow> bool" where
  "never i = False"

definition at_once :: "nat \<Rightarrow> bool" where
  "at_once i = True"

definition fails_twice :: "int \<Rightarrow> err option" where
  "fails_twice n = (if n < 3 then Some (Upstream ''timeout'') else None)"

definition always_fails :: "int \<Rightarrow> err option" where
  "always_fails n = Some (Upstream ''timeout'')"

text \<open>The delay before attempt \<open>i + 2\<close>: doubling from \<open>baseDelay\<close>, capped.\<close>

fun backoff :: "int \<Rightarrow> int \<Rightarrow> nat \<Rightarrow> int" where
  "backoff baseDelay maxDelay 0 = baseDelay"
| "backoff baseDelay maxDelay (Suc i) = min (2 * backoff baseDelay maxDelay i) maxDelay"

section \<open>Strings and addresses (the standard library, as far as the program uses it)\<close>

text \<open>
  A Go string is a byte sequence. \<open>strings.TrimSpace\<close> and \<open>strings.ToUpper\<close> are
  modelled on ASCII text, which is what zone types and record values are made of: the
  white space is tab, line feed, vertical tab, form feed, carriage return and space.
\<close>

definition isSpace :: "char \<Rightarrow> bool" where
  "isSpace c = (c \<in> set [CHR 0x09, CHR 0x0A, CHR 0x0B, CHR 0x0C, CHR 0x0D, CHR '' ''])"

definition TrimSpace :: "string \<Rightarrow> string" where
  "TrimSpace s = rev (dropWhile isSpace (rev (dropWhile isSpace s)))"

definition upperChar :: "char \<Rightarrow> char" where
  "upperChar c =
     (case map_of (zip ''abcdefghijklmnopqrstuvwxyz'' ''ABCDEFGHIJKLMNOPQRSTUVWXYZ'') c of
        None \<Rightarrow> c | Some u \<Rightarrow> u)"

definition ToUpper :: "string \<Rightarrow> string" where
  "ToUpper s = map upperChar s"

text \<open>\<open>net.IP\<close> is a byte slice; \<open>To4\<close> returns the 4-byte form or nil.\<close>

type_synonym IP = "8 word list"

definition To4 :: "IP \<Rightarrow> IP option" where
  "To4 ip =
     (if length ip = 4 then Some ip
      else if length ip = 16 \<and> (\<forall>b \<in> set (take 10 ip). b = 0) \<and> ip ! 10 = 0xff \<and> ip ! 11 = 0xff
           then Some (drop 12 ip)
      else None)"

fun digits :: "nat \<Rightarrow> nat \<Rightarrow> string" where
  "digits base n =
     (if base < 2 \<or> n < base then [''0123456789abcdef'' ! n]
      else digits base (n div base) @ [''0123456789abcdef'' ! (n mod base)])"

fun join :: "string \<Rightarrow> string list \<Rightarrow> string" where
  "join sep [] = []"
| "join sep [x] = x"
| "join sep (x # y # ys) = x @ sep @ join sep (y # ys)"

fun groups16 :: "IP \<Rightarrow> nat list" where
  "groups16 (hi # lo # rest) = (unat hi * 256 + unat lo) # groups16 rest"
| "groups16 _ = []"

text \<open>
  The first longest run of at least two zero groups, as (start, end); (255, 255) when
  there is none.
\<close>

definition zeroRun :: "nat list \<Rightarrow> nat \<times> nat" where
  "zeroRun gs =
     foldl (\<lambda>(zs, ze) i.
              let j = i + length (takeWhile (\<lambda>g. g = 0) (drop i gs)); l = j - i
              in if l \<ge> 2 \<and> l > ze - zs then (i, j) else (zs, ze))
           (255, 255) [0..<8]"

definition string6 :: "IP \<Rightarrow> string" where
  "string6 ip =
     (let gs = groups16 ip; (zs, ze) = zeroRun gs in
      if zs = 255 then join '':'' (map (digits 16) gs)
      else join '':'' (map (digits 16) (take zs gs)) @ ''::'' @
           join '':'' (map (digits 16) (drop ze gs)))"

definition hexByte :: "8 word \<Rightarrow> string" where
  "hexByte b = [''0123456789abcdef'' ! (unat b div 16), ''0123456789abcdef'' ! (unat b mod 16)]"

definition IP_String :: "IP \<Rightarrow> string" where
  "IP_String ip =
     (if length ip = 0 then ''<nil>''
      else if length ip \<noteq> 4 \<and> length ip \<noteq> 16 then ''?'' @ concat (map hexByte ip)
      else (case To4 ip of
              Some p4 \<Rightarrow> join ''.'' (map (\<lambda>b. digits 10 (unat b)) p4)
            | None \<Rightarrow> string6 ip))"

section \<open>Configuration (internal/config/config.go)\<close>

text \<open>The fields of the configuration that the engine reads; durations in nanoseconds.\<close>

record RecordConfig =
  rc_Name :: string
  rc_TTL :: "int option"

record ZoneConfig =
  zc_Name :: string
  zc_Records :: "RecordConfig list"
  zc_RecordType :: string
  zc_IPProviderURL :: string
  zc_TTL :: "int option"

record Config =
  Zones :: "ZoneConfig list"
  RetryAttempts :: int
  RetryBaseDelay :: int
  RetryMaxDelay :: int
  PreserveRecords :: bool

section \<open>The collaborators: zone API, IP provider, context\<close>

record Zone =
  zone_ID :: int
  zone_Name :: string

record ZoneRRSet =
  rr_Zone :: Zone
  rr_Name :: string
  rr_Type :: string
  rr_TTL :: "int option"
  rr_Records :: "string list"

datatype call =
    CallFetch string
  | CallGetZone string
  | CallGetRRSet Zone string string
  | CallCreateRRSet Zone string string "int option" "string list"
  | CallAddRRSetRecords ZoneRRSet "string list" "int option"
  | CallSetRRSetRecords ZoneRRSet "string list"
  | CallChangeRRSetTTL ZoneRRSet "int option"

text \<open>
  The world outside the process. \<open>provider\<close> is what an IP provider URL answers,
  \<open>zones\<close> and \<open>rrsets\<close> are the remote DNS state (an RRSet is its TTL and its values).
  \<open>faults\<close> lists, for the coming remote attempts in order, the transport error each
  one meets (\<open>None\<close>: none; after the list, none); a faulted attempt leaves the remote
  state unchanged. \<open>cancels\<close> tells for the coming backoff waits whether the context is
  cancelled during the wait. \<open>calls\<close> and \<open>waits\<close> record every remote attempt and every
  wait; \<open>cycles\<close> counts the sync cycles started.

  The zone API is modelled by its contract: a lookup answers the stored record set or
  nil; a create stores the TTL and the values it is given; an append adds its values to
  the stored ones and, when it carries a TTL, sets it; a replace puts its values in place
  of the stored ones and keeps the TTL; a TTL change sets the TTL and keeps the values.
\<close>

record world =
  provider :: "string \<Rightarrow> err + IP"
  zones :: "string \<Rightarrow> Zone option"
  rrsets :: "Zone \<times> string \<times> string \<Rightarrow> (int option \<times> string list) option"
  faults :: "err option list"
  cancels :: "bool list"
  calls :: "call list"
  waits :: "int list"
  cycles :: nat

definition begin_call :: "call \<Rightarrow> world \<Rightarrow> err option \<times> world" where
  "begin_call c w =
     (case faults w of
        [] \<Rightarrow> (None, w\<lparr>calls := calls w @ [c]\<rparr>)
      | f # fs \<Rightarrow> (f, w\<lparr>calls := calls w @ [c], faults := fs\<rparr>))"

definition rrkey :: "ZoneRRSet \<Rightarrow> Zone \<times> string \<times> string" where
  "rrkey rrset = (rr_Zone rrset, rr_Name rrset, rr_Type rrset)"

definition Fetch :: "string \<Rightarrow> world \<Rightarrow> (err + IP) \<times> world" where
  "Fetch url w =
     (case begin_call (CallFetch url) w of
        (Some e, w1) \<Rightarrow> (Inl e, w1)
      | (None, w1) \<Rightarrow> (provider w1 url, w1))"

definition GetByName :: "string \<Rightarrow> world \<Rightarrow> (err + Zone option) \<times> world" where
  "GetByName name w =
     (case begin_call (CallGetZone name) w of
        (Some e, w1) \<Rightarrow> (Inl e, w1)
      | (None, w1) \<Rightarrow> (Inr (zones w1 name), w1))"

definition GetRRSetByNameAndType ::
  "Zone \<Rightarrow> string \<Rightarrow> string \<Rightarrow> world \<Rightarrow> (err + ZoneRRSet option) \<times> world" where
  "GetRRSetByNameAndType zone name rrType w =
     (case begin_call (CallGetRRSet zone name rrType) w of
        (Some e, w1) \<Rightarrow> (Inl e, w1)
      | (None, w1) \<Rightarrow>
          (case rrsets w1 (zone, name, rrType) of
             None \<Rightarrow> (Inr None, w1)
           | Some (ttl, vs) \<Rightarrow>
               (Inr (Some \<lparr>rr_Zone = zone, rr_Name = name, rr_Type = rrType,
                           rr_TTL = ttl, rr_Records = vs\<rparr>), w1)))"

definition CreateRRSet ::
  "Zone \<Rightarrow> string \<Rightarrow> string \<Rightarrow> int option \<Rightarrow> string list \<Rightarrow> world \<Rightarrow> err option \<times> world" where
  "CreateRRSet zone name rrType ttl records w =
     (case begin_call (CallCreateRRSet zone name rrType ttl records) w of
        (Some e, w1) \<Rightarrow> (Some e, w1)
      | (None, w1) \<Rightarrow>
          (case rrsets w1 (zone, name, rrType) of
             Some _ \<Rightarrow> (Some (Upstream ''uniqueness_error''), w1)
           | None \<Rightarrow> (None, w1\<lparr>rrsets := (rrsets w1)((zone, name, rrType) \<mapsto> (ttl, records))\<rparr>)))"

definition AddRRSetRecords ::
  "ZoneRRSet \<Rightarrow> string list \<Rightarrow> int option \<Rightarrow> world \<Rightarrow> err option \<times> world" where
  "AddRRSetRecords rrset records ttl w =
     (case begin_call (CallAddRRSetRecords rrset records ttl) w of
        (Some e, w1) \<Rightarrow> (Some e, w1)
      | (None, w1) \<Rightarrow>
          (case rrsets w1 (rrkey rrset) of
             None \<Rightarrow> (None, w1\<lparr>rrsets := (rrsets w1)(rrkey rrset \<mapsto> (ttl, records))\<rparr>)
           | Some (t, vs) \<Rightarrow>
               (None, w1\<lparr>rrsets := (rrsets w1)(rrkey rrset \<mapsto>
                  (case ttl of None \<Rightarrow> t | Some n \<Rightarrow> Some n, vs @ records))\<rparr>)))"

definition SetRRSetRecords :: "ZoneRRSet \<Rightarrow> string list \<Rightarrow> world \<Rightarrow> err option \<times> world" where
  "SetRRSetRecords rrset records w =
     (case begin_call (CallSetRRSetRecords rrset records) w of
        (Some e, w1) \<Rightarrow> (Some e, w1)
      | (None, w1) \<Rightarrow>
          (case rrsets w1 (rrkey rrset) of
             None \<Rightarrow> (Some (Upstream ''not_found''), w1)
           | Some (t, vs) \<Rightarrow> (None, w1\<lparr>rrsets := (rrsets w1)(rrkey rrset \<mapsto> (t, records))\<rparr>)))"

definition ChangeRRSetTTL :: "ZoneRRSet \<Rightarrow> int option \<Rightarrow> world \<Rightarrow> err option \<times> world" where
  "ChangeRRSetTTL rrset ttl w =
     (case begin_call (CallChangeRRSetTTL rrset ttl) w of
        (Some e, w1) \<Rightarrow> (Some e, w1)
      | (None, w1) \<Rightarrow>
          (case rrsets w1 (rrkey rrset) of
             None \<Rightarrow> (Some (Upstream ''not_found''), w1)
           | Some (t, vs) \<Rightarrow> (None, w1\<lparr>rrsets := (rrsets w1)(rrkey rrset \<mapsto> (ttl, vs))\<rparr>)))"

definition ctx_wait :: "int \<Rightarrow> world \<Rightarrow> bool \<times> world" where
  "ctx_wait d w =
     (case cancels w of
        [] \<Rightarrow> (False, w\<lparr>waits := waits w @ [d]\<rparr>)
      | c # cs \<Rightarrow> (c, w\<lparr>waits := waits w @ [d], cancels := cs\<rparr>))"

section \<open>The service (cmd/ddns/main.go, package ddns)\<close>

text \<open>
  An operation passed to \<open>withRetry\<close> is a closure that assigns its result to a variable
  of the caller; the state threaded through the executor is the world and that variable.
  The per-call deadline of \<open>withTimeout\<close> is not modelled as time: a call that runs into
  it is a faulted attempt. Logging is left out.
\<close>

definition withTimeout :: "('s \<Rightarrow> err option \<times> 's) \<Rightarrow> 's \<Rightarrow> err option \<times> 's" where
  "withTimeout fn s = fn s"

definition wait_on :: "int \<Rightarrow> world \<times> 'v \<Rightarrow> bool \<times> world \<times> 'v" where
  "wait_on d s = (case ctx_wait d (fst s) of (c, w1) \<Rightarrow> (c, (w1, snd s)))"

definition withRetry ::
  "Config \<Rightarrow> string \<Rightarrow> (world \<times> 'v \<Rightarrow> err option \<times> world \<times> 'v) \<Rightarrow> world \<times> 'v \<Rightarrow>
   err option \<times> world \<times> 'v" where
  "withRetry cfg label fn s =
     retry (RetryAttempts cfg) (RetryBaseDelay cfg) (RetryMaxDelay cfg)
       (\<lambda>s attempt. withTimeout fn s) wait_on s"

definition normalizeIP :: "string \<Rightarrow> IP \<Rightarrow> err + string" where
  "normalizeIP recordType ipAddr =
     (let t = ToUpper (TrimSpace recordType) in
      if t = ''A'' then
        (case To4 ipAddr of
           None \<Rightarrow> Inl (Plain ''IP provider returned non-IPv4 address for A record'')
         | Some ipv4 \<Rightarrow> Inr (IP_String ipv4))
      else if t = ''AAAA'' then
        (case To4 ipAddr of
           Some ipv4 \<Rightarrow> Inl (Plain ''IP provider returned IPv4 address for AAAA record'')
         | None \<Rightarrow> Inr (IP_String ipAddr))
      else Inl (Plain (''unsupported record type: '' @ recordType)))"

text \<open>The closures handed to \<open>withRetry\<close>, one per remote operation.\<close>

definition getZone_op :: "string \<Rightarrow> world \<times> Zone option \<Rightarrow> err option \<times> world \<times> Zone option" where
  "getZone_op name s =
     (case GetByName name (fst s) of
        (Inl getErr, w1) \<Rightarrow> (Some getErr, (w1, None))
      | (Inr None, w1) \<Rightarrow> (Some (Plain (''zone not found: '' @ name)), (w1, None))
      | (Inr (Some z), w1) \<Rightarrow> (None, (w1, Some z)))"

definition getRRSet_op ::
  "Zone \<Rightarrow> string \<Rightarrow> string \<Rightarrow> world \<times> ZoneRRSet option \<Rightarrow>
   err option \<times> world \<times> ZoneRRSet option" where
  "getRRSet_op zone name rrType s =
     (case GetRRSetByNameAndType zone name rrType (fst s) of
        (Inl getErr, w1) \<Rightarrow> (Some getErr, (w1, None))
      | (Inr r, w1) \<Rightarrow> (None, (w1, r)))"

definition createRRSet_op ::
  "Zone \<Rightarrow> string \<Rightarrow> string \<Rightarrow> int option \<Rightarrow> string \<Rightarrow> world \<times> unit \<Rightarrow>
   err option \<times> world \<times> unit" where
  "createRRSet_op zone name rrType ttl ip s =
     (case CreateRRSet zone name rrType ttl [ip] (fst s) of (e, w1) \<Rightarrow> (e, (w1, ())))"

definition addRecords_op ::
  "ZoneRRSet \<Rightarrow> string \<Rightarrow> int option \<Rightarrow> world \<times> unit \<Rightarrow> err option \<times> world \<times> unit" where
  "addRecords_op rrset ip ttl s =
     (case AddRRSetRecords rrset [ip] ttl (fst s) of (e, w1) \<Rightarrow> (e, (w1, ())))"

definition setRecords_op ::
  "ZoneRRSet \<Rightarrow> string \<Rightarrow> world \<times> unit \<Rightarrow> err option \<times> world \<times> unit" where
  "setRecords_op rrset ip s =
     (case SetRRSetRecords rrset [ip] (fst s) of (e, w1) \<Rightarrow> (e, (w1, ())))"

definition changeTTL_op ::
  "ZoneRRSet \<Rightarrow> int option \<Rightarrow> world \<times> unit \<Rightarrow> err option \<times> world \<times> unit" where
  "changeTTL_op rrset ttl s =
     (case ChangeRRSetTTL rrset ttl (fst s) of (e, w1) \<Rightarrow> (e, (w1, ())))"

definition getZone :: "Config \<Rightarrow> string \<Rightarrow> world \<Rightarrow> (Zone option \<times> err option) \<times> world" where
  "getZone cfg name w =
     (case withRetry cfg ''get zone'' (getZone_op name) (w, None) of
        (e, (w1, zone)) \<Rightarrow> ((zone, e), w1))"

definition rrsetHasValue :: "ZoneRRSet \<Rightarrow> string \<Rightarrow> bool" where
  "rrsetHasValue rrset ip = (\<exists>v \<in> set (rr_Records rrset). TrimSpace v = ip)"

definition ensureTTL ::
  "Config \<Rightarrow> string \<Rightarrow> ZoneRRSet \<Rightarrow> int option \<Rightarrow> world \<Rightarrow> err option \<times> world" where
  "ensureTTL cfg zoneName rrset ttl w =
     (case ttl of
        None \<Rightarrow> (None, w)
      | Some t \<Rightarrow>
          if rr_TTL rrset = Some t then (None, w)
          else (case withRetry cfg ''change rrset ttl'' (changeTTL_op rrset ttl) (w, ()) of
                  (Some e, (w1, u)) \<Rightarrow> (Some (Wrap ''change rrset ttl'' e), w1)
                | (None, (w1, u)) \<Rightarrow> (None, w1)))"

definition updateRecord ::
  "Config \<Rightarrow> Zone \<Rightarrow> string \<Rightarrow> string \<Rightarrow> string \<Rightarrow> int option \<Rightarrow> world \<Rightarrow> err option \<times> world" where
  "updateRecord cfg zone recordType name ip ttl w =
     (let rrType = ToUpper (TrimSpace recordType) in
      case withRetry cfg ''get rrset'' (getRRSet_op zone name rrType) (w, None) of
        (Some e, (w1, r)) \<Rightarrow> (Some (Wrap (''get rrset '' @ name @ ''/'' @ rrType) e), w1)
      | (None, (w1, None)) \<Rightarrow>
          (case withRetry cfg ''create rrset'' (createRRSet_op zone name rrType ttl ip) (w1, ()) of
             (Some e, (w2, u)) \<Rightarrow> (Some (Wrap (''create rrset '' @ name @ ''/'' @ rrType) e), w2)
           | (None, (w2, u)) \<Rightarrow> (None, w2))
      | (None, (w1, Some rrset)) \<Rightarrow>
          if rrsetHasValue rrset ip \<and>
             \<not> (\<not> PreserveRecords cfg \<and> length (rr_Records rrset) > 1)
          then ensureTTL cfg (zone_Name zone) rrset ttl w1
          else if PreserveRecords cfg \<and> length (rr_Records rrset) > 1 then
            (case withRetry cfg ''add rrset record'' (addRecords_op rrset ip ttl) (w1, ()) of
               (Some e, (w2, u)) \<Rightarrow>
                 (Some (Wrap (''add rrset record '' @ name @ ''/'' @ rrType) e), w2)
             | (None, (w2, u)) \<Rightarrow> ensureTTL cfg (zone_Name zone) rrset ttl w2)
          else
            (case withRetry cfg ''set rrset records'' (setRecords_op rrset ip) (w1, ()) of
               (Some e, (w2, u)) \<Rightarrow>
                 (Some (Wrap (''set rrset records '' @ name @ ''/'' @ rrType) e), w2)
             | (None, (w2, u)) \<Rightarrow> ensureTTL cfg (zone_Name zone) rrset ttl w2))"

text \<open>
  One sync cycle. The loop state is the world, the cycle's IP cache and the errors
  collected so far; \<open>syncZone\<close> is the body of the loop over the zones, \<open>syncRecords\<close>
  the loop over the records of a zone. A nil \<open>net.IP\<close> is the empty byte sequence.
  \<open>getZone\<close> returns a zone whenever it returns no error, so the case of neither in
  \<open>syncZone\<close> is never reached (the Go code would dereference nil there).
\<close>

record cycle =
  cy_world :: world
  ipCache :: "string \<Rightarrow> IP option"
  errs :: "err list"

definition fetch_op :: "string \<Rightarrow> world \<times> IP \<Rightarrow> err option \<times> world \<times> IP" where
  "fetch_op url s =
     (case Fetch url (fst s) of
        (Inl fetchErr, w1) \<Rightarrow> (Some fetchErr, (w1, []))
      | (Inr ip, w1) \<Rightarrow> (None, (w1, ip)))"

fun syncRecords ::
  "Config \<Rightarrow> ZoneConfig \<Rightarrow> Zone \<Rightarrow> string \<Rightarrow> RecordConfig list \<Rightarrow> cycle \<Rightarrow> cycle" where
  "syncRecords cfg zoneCfg zone ipStr [] st = st"
| "syncRecords cfg zoneCfg zone ipStr (record # rest) st =
     (let ttl = (case rc_TTL record of None \<Rightarrow> zc_TTL zoneCfg | Some t \<Rightarrow> Some t) in
      case updateRecord cfg zone (zc_RecordType zoneCfg) (rc_Name record) ipStr ttl (cy_world st) of
        (Some e, w1) \<Rightarrow>
          syncRecords cfg zoneCfg zone ipStr rest
            (st\<lparr>cy_world := w1,
                errs := errs st @
                  [Wrap (''zone '' @ zc_Name zoneCfg @ '' record '' @ rc_Name record) e]\<rparr>)
      | (None, w1) \<Rightarrow> syncRecords cfg zoneCfg zone ipStr rest (st\<lparr>cy_world := w1\<rparr>))"

definition resolveIP :: "ZoneConfig \<Rightarrow> cycle \<Rightarrow> (err + IP) \<times> cycle" where
  "resolveIP zoneCfg st =
     (case ipCache st (zc_IPProviderURL zoneCfg) of
        Some ipAddr \<Rightarrow> (Inr ipAddr, st)
      | None \<Rightarrow>
          (case withTimeout (fetch_op (zc_IPProviderURL zoneCfg)) (cy_world st, []) of
             (Some e, (w1, fetched)) \<Rightarrow>
               (Inl e, st\<lparr>cy_world := w1,
                          errs := errs st @ [Wrap (''zone '' @ zc_Name zoneCfg @ '' ip fetch'') e]\<rparr>)
           | (None, (w1, fetched)) \<Rightarrow>
               (Inr fetched,
                st\<lparr>cy_world := w1,
                   ipCache := (ipCache st)(zc_IPProviderURL zoneCfg \<mapsto> fetched)\<rparr>)))"

definition syncZone :: "Config \<Rightarrow> cycle \<Rightarrow> ZoneConfig \<Rightarrow> cycle" where
  "syncZone cfg st zoneCfg =
     (case resolveIP zoneCfg st of
        (Inl e, st1) \<Rightarrow> st1
      | (Inr ipAddr, st1) \<Rightarrow>
          (case normalizeIP (zc_RecordType zoneCfg) ipAddr of
             Inl e \<Rightarrow> st1\<lparr>errs := errs st1 @
                              [Wrap (''zone '' @ zc_Name zoneCfg @ '' ip validation'') e]\<rparr>
           | Inr ipStr \<Rightarrow>
               (case getZone cfg (zc_Name zoneCfg) (cy_world st1) of
                  ((zone, Some e), w1) \<Rightarrow>
                    st1\<lparr>cy_world := w1,
                        errs := errs st1 @ [Wrap (''zone '' @ zc_Name zoneCfg @ '' lookup'') e]\<rparr>
                | ((None, None), w1) \<Rightarrow> st1\<lparr>cy_world := w1\<rparr>
                | ((Some zone, None), w1) \<Rightarrow>
                    syncRecords cfg zoneCfg zone ipStr (zc_Records zoneCfg)
                      (st1\<lparr>cy_world := w1\<rparr>))))"






section \<open>Observing a run\<close>

text \<open>
  \<open>tried c w k w'\<close>: from \<open>w\<close> to \<open>w'\<close> the call \<open>c\<close> was attempted \<open>k\<close> times
  and nothing outside the process has changed; \<open>stepped\<close> is the same without the
  record sets, which a successful mutation changes. \<open>new_calls w w'\<close> are the remote
  attempts made between \<open>w\<close> and \<open>w'\<close>.
\<close>

definition tried :: "call \<Rightarrow> world \<Rightarrow> nat \<Rightarrow> world \<Rightarrow> bool" where
  "tried c w k w' \<longleftrightarrow>
     provider w' = provider w \<and> zones w' = zones w \<and> rrsets w' = rrsets w \<and>
     cycles w' = cycles w \<and> calls w' = calls w @ replicate k c"

definition stepped :: "call \<Rightarrow> world \<Rightarrow> nat \<Rightarrow> world \<Rightarrow> bool" where
  "stepped c w k w' \<longleftrightarrow>
     provider w' = provider w \<and> zones w' = zones w \<and> cycles w' = cycles w \<and>
     calls w' = calls w @ replicate k c"

definition new_calls :: "world \<Rightarrow> world \<Rightarrow> call list" where
  "new_calls w w' = drop (length (calls w)) (calls w')"

fun is_value_mutation :: "call \<Rightarrow> bool" where
  "is_value_mutation (CallCreateRRSet z n t ttl vs) = True"
| "is_value_mutation (CallAddRRSetRecords r vs ttl) = True"
| "is_value_mutation (CallSetRRSetRecords r vs) = True"
| "is_value_mutation c = False"

fun is_ttl_change :: "call \<Rightarrow> bool" where
  "is_ttl_change (CallChangeRRSetTTL r ttl) = True"
| "is_ttl_change c = False"







section \<open>Sample inputs\<close>

definition mapped_v4 :: IP where
  "mapped_v4 = [0, 0, 0, 0, 0, 0, 0, 0, 0, 0, 0xff, 0xff, 203, 0, 113, 5]"

definition doc_v6 :: IP where
  "doc_v6 = [0x20, 0x01, 0x0d, 0xb8, 0, 0, 0, 0, 0, 0, 0, 0, 0, 0, 0, 1]"

definition zone1 :: Zone where
  "zone1 = \<lparr>zone_ID = 1, zone_Name = ''example.com''\<rparr>"

definition cfg1 :: "bool \<Rightarrow> Config" where
  "cfg1 preserve =
     \<lparr>Zones = [\<lparr>zc_Name = ''example.com'',
                 zc_Records = [\<lparr>rc_Name = ''@'', rc_TTL = None\<rparr>,
                               \<lparr>rc_Name = ''vpn'', rc_TTL = Some 120\<rparr>],
                 zc_RecordType = ''A'', zc_IPProviderURL = ''https://api.ipify.org'',
                 zc_TTL = Some 300\<rparr>],
      RetryAttempts = 3, RetryBaseDelay = 500000000, RetryMaxDelay = 5000000000,
      PreserveRecords = preserve\<rparr>"

text \<open>A remote state with at most the record set \<open>vpn\<close> of type A in \<open>example.com\<close>.\<close>

definition vpn_only ::
  "(int option \<times> string list) option \<Rightarrow> Zone \<times> string \<times> string \<Rightarrow> (int option \<times> string list) option" where
  "vpn_only x k = (if k = (zone1, ''vpn'', ''A'') then x else None)"

definition world1 :: "(int option \<times> string list) option \<Rightarrow> err option list \<Rightarrow> world" where
  "world1 x fs =
     \<lparr>provider = (\<lambda>url. Inr mapped_v4),
      zones = (\<lambda>n. if n = ''example.com'' then Some zone1 else None),
      rrsets = vpn_only x, faults = fs, cancels = [], calls = [], waits = [], cycles = 0\<rparr>"

definition vpn_rrset :: "int option \<Rightarrow> string list \<Rightarrow> ZoneRRSet" where
  "vpn_rrset t vs =
     \<lparr>rr_Zone = zone1, rr_Name = ''vpn'', rr_Type = ''A'', rr_TTL = t, rr_Records = vs\<rparr>"

declare retry_loop.simps [simp del]
declare digits.simps [simp del]

section \<open>The loop of the executor\<close>

lemma wrap64_id: "- (2 ^ 63) \<le> x \<Longrightarrow> x < 2 ^ 63 \<Longrightarrow> wrap64 x = x"
  unfolding wrap64_def by (simp add: mod_pos_pos_trivial)

lemma next_delay_bounded:
  assumes "0 \<le> d" "d < 2 ^ 62"
  shows "next_delay m d = min (2 * d) m"
proof -
  have "wrap64 (d * 2) = d * 2" using assms by (intro wrap64_id) auto
  then show ?thesis by (auto simp: next_delay_def Let_def min_def)
qed

lemma backoff_bounds:
  assumes "0 \<le> b" "b < 2 ^ 62" "0 \<le> m" "m < 2 ^ 62"
  shows "0 \<le> backoff b m i \<and> backoff b m i < 2 ^ 62"
  using assms by (induction i) (auto simp: min_def)

lemma next_delay_pow_backoff:
  assumes "0 \<le> b" "b < 2 ^ 62" "0 \<le> m" "m < 2 ^ 62"
  shows "(next_delay m ^^ i) b = backoff b m i"
proof (induction i)
  case 0 show ?case by simp
next
  case (Suc i)
  have "next_delay m (backoff b m i) = min (2 * backoff b m i) m"
    using backoff_bounds[OF assms, of i] by (intro next_delay_bounded) auto
  with Suc show ?case by simp
qed

lemma loop_waits:
  "retry_loop (h_op out) (h_wait can) m a j d le s = (r, s') \<Longrightarrow>
   \<exists>n. waited s' = waited s @ map (\<lambda>i. (next_delay m ^^ i) d) [0..<n]"
proof (induction "h_op out" "h_wait can" m a j d le s arbitrary: r s' rule: retry_loop.induct)
  case (1 m a j d le s)
  show ?case
  proof (cases "j \<le> a")
    case False
    with "1.prems" have "s' = s" by (simp add: retry_loop.simps)
    then show ?thesis by (intro exI[of _ 0]) simp
  next
    case True
    show ?thesis
    proof (cases "out j")
      case None
      with True "1.prems" have "s' = s\<lparr>invocations := Suc (invocations s)\<rparr>"
        by (simp add: retry_loop.simps h_op_def)
      then show ?thesis by (intro exI[of _ 0]) simp
    next
      case (Some e)
      let ?s1 = "s\<lparr>invocations := Suc (invocations s)\<rparr>"
      let ?s2 = "?s1\<lparr>waited := waited ?s1 @ [d]\<rparr>"
      have f: "h_op out s j = (Some e, ?s1)" by (simp add: h_op_def Some)
      show ?thesis
      proof (cases "j = a")
        case True
        with f "1.prems" have "s' = ?s1" by (simp add: retry_loop.simps)
        then show ?thesis by (intro exI[of _ 0]) simp
      next
        case ne: False
        show ?thesis
        proof (cases "can (length (waited ?s1))")
          case True
          then have w: "h_wait can d ?s1 = (True, ?s2)" by (simp add: h_wait_def)
          from \<open>j \<le> a\<close> ne f w "1.prems" have "s' = ?s2" by (simp add: retry_loop.simps)
          then show ?thesis by (intro exI[of _ 1]) simp
        next
          case False
          then have w: "h_wait can d ?s1 = (False, ?s2)" by (simp add: h_wait_def)
          from \<open>j \<le> a\<close> ne f w "1.prems"
          have rec: "retry_loop (h_op out) (h_wait can) m a (j + 1) (next_delay m d) (Some e) ?s2 = (r, s')"
            by (simp add: retry_loop.simps)
          from "1.hyps"[OF \<open>j \<le> a\<close> f[symmetric] refl ne w[symmetric] refl rec]
          obtain n where n: "waited s' = waited ?s2 @ map (\<lambda>i. (next_delay m ^^ i) (next_delay m d)) [0..<n]"
            by blast
          have "map (\<lambda>i. (next_delay m ^^ i) d) [0..<Suc n] = d # map (\<lambda>i. (next_delay m ^^ i) (next_delay m d)) [0..<n]"
            by (simp add: upt_conv_Cons map_Suc_upt[symmetric] funpow_swap1 del: upt_Suc)
          with n show ?thesis by (intro exI[of _ "Suc n"]) (simp del: upt_Suc)
        qed
      qed
    qed
  qed
qed

lemma loop_step_fail:
  assumes "j < a" "out j = Some e" "\<not> can (length (waited s))"
  shows "retry_loop (h_op out) (h_wait can) m a j d le s =
         retry_loop (h_op out) (h_wait can) m a (j + 1) (next_delay m d) (Some e)
           (s\<lparr>invocations := Suc (invocations s), waited := waited s @ [d]\<rparr>)"
  using assms by (subst retry_loop.simps) (simp add: h_op_def h_wait_def)

lemma loop_skip:
  assumes "\<forall>i. \<not> can i"
  shows "j \<le> k \<Longrightarrow> k \<le> a \<Longrightarrow> \<forall>i. j \<le> i \<and> i < k \<longrightarrow> out i \<noteq> None \<Longrightarrow> n = nat (k - j) \<Longrightarrow>
    \<exists>d' le' s'. invocations s' = invocations s + n \<and> length (waited s') = length (waited s) + n \<and>
       retry_loop (h_op out) (h_wait can) m a j d le s =
       retry_loop (h_op out) (h_wait can) m a k d' le' s'"
proof (induction n arbitrary: j d le s)
  case 0
  then have "j = k" by simp
  then show ?case by (intro exI[of _ d] exI[of _ le] exI[of _ s]) simp
next
  case (Suc n)
  then have jk: "j < k" by simp
  with Suc.prems obtain e where e: "out j = Some e" by (metis not_None_eq order_refl)
  let ?s = "s\<lparr>invocations := Suc (invocations s), waited := waited s @ [d]\<rparr>"
  have st: "retry_loop (h_op out) (h_wait can) m a j d le s =
         retry_loop (h_op out) (h_wait can) m a (j + 1) (next_delay m d) (Some e) ?s"
    using jk Suc.prems(2) e assms by (intro loop_step_fail) auto
  have "\<exists>d' le' s'. invocations s' = invocations ?s + n \<and> length (waited s') = length (waited ?s) + n \<and>
       retry_loop (h_op out) (h_wait can) m a (j + 1) (next_delay m d) (Some e) ?s =
       retry_loop (h_op out) (h_wait can) m a k d' le' s'"
    using jk Suc.prems by (intro Suc.IH) auto
  then show ?case unfolding st by auto
qed

lemma loop_success_here:
  assumes "k \<le> a" "out k = None"
  shows "retry_loop (h_op out) (h_wait can) m a k d le s = (None, s\<lparr>invocations := Suc (invocations s)\<rparr>)"
  using assms by (subst retry_loop.simps) (simp add: h_op_def)

lemma loop_fail_last:
  assumes "out a = Some e"
  shows "retry_loop (h_op out) (h_wait can) m a a d le s = (Some e, s\<lparr>invocations := Suc (invocations s)\<rparr>)"
  using assms by (subst retry_loop.simps) (simp add: h_op_def)

lemma retry_succeeds_at:
  assumes nc: "\<forall>i. \<not> can i" and k: "1 \<le> k" "k \<le> a"
    and f: "\<forall>i. 1 \<le> i \<and> i < k \<longrightarrow> out i \<noteq> None" and s: "out k = None"
  shows "fst (retry a b m (h_op out) (h_wait can) h0) = None \<and>
         invocations (snd (retry a b m (h_op out) (h_wait can) h0)) = nat k"
proof -
  have a: "(if a \<le> 0 then 1 else a) = a" using k by simp
  obtain d' le' s' where i: "invocations s' = invocations h0 + nat (k - 1)"
    and l: "length (waited s') = length (waited h0) + nat (k - 1)"
    and r: "retry_loop (h_op out) (h_wait can) m a 1 b None h0 = retry_loop (h_op out) (h_wait can) m a k d' le' s'"
    using loop_skip[OF nc k(1) k(2) f refl, where m=m and d=b and le=None and s=h0] by blast
  have "retry a b m (h_op out) (h_wait can) h0 = (None, s'\<lparr>invocations := Suc (invocations s')\<rparr>)"
    unfolding retry_def a r using k s by (intro loop_success_here) auto
  with i k show ?thesis by (simp add: h0_def nat_diff_distrib)
qed

lemma retry_exhausts:
  assumes nc: "\<forall>i. \<not> can i" and f: "\<forall>i. 1 \<le> i \<longrightarrow> out i \<noteq> None"
  shows "fst (retry a b m (h_op out) (h_wait can) h0) = out (max 1 a) \<and>
         invocations (snd (retry a b m (h_op out) (h_wait can) h0)) = nat (max 1 a) \<and>
         length (waited (snd (retry a b m (h_op out) (h_wait can) h0))) = nat (max 1 a) - 1"
proof -
  define n where "n = max 1 a"
  have a: "(if a \<le> 0 then 1 else a) = n" unfolding n_def by simp
  have n1: "1 \<le> n" unfolding n_def by simp
  obtain e where e: "out n = Some e" using f n1 by (metis not_None_eq)
  obtain d' le' s' where i: "invocations s' = invocations h0 + nat (n - 1)"
    and l: "length (waited s') = length (waited h0) + nat (n - 1)"
    and r: "retry_loop (h_op out) (h_wait can) m n 1 b None h0 = retry_loop (h_op out) (h_wait can) m n n d' le' s'"
    using loop_skip[OF nc n1 order_refl _ refl, where out=out and m=m and d=b and le=None and s=h0] f by blast
  have "retry a b m (h_op out) (h_wait can) h0 = (Some e, s'\<lparr>invocations := Suc (invocations s')\<rparr>)"
    unfolding retry_def a r using e by (intro loop_fail_last) auto
  with i l n1 e show ?thesis unfolding n_def[symmetric] by (simp add: h0_def nat_diff_distrib)
qed

text \<open>
  How a run of the loop ends, for any operation: with an invariant \<open>I\<close> that holds before
  each invocation and \<open>J\<close> that holds after a failed one, either the last invocation
  succeeded from a state with \<open>I\<close>, or the run failed and ends in a state with \<open>J\<close>.
\<close>

lemma retry_loop_outcome:
  "(\<And>s a e s1. I s \<Longrightarrow> fn s a = (Some e, s1) \<Longrightarrow> J s1) \<Longrightarrow>
   (\<And>d s c s2. J s \<Longrightarrow> wait d s = (c, s2) \<Longrightarrow> J s2) \<Longrightarrow>
   (\<And>s. J s \<Longrightarrow> I s) \<Longrightarrow>
   attempt \<le> attempts \<Longrightarrow> I s \<Longrightarrow>
   retry_loop fn wait m attempts attempt d le s = (r, s') \<Longrightarrow>
   (r = None \<and> (\<exists>s0 a. I s0 \<and> fn s0 a = (None, s'))) \<or> (r \<noteq> None \<and> J s')"
proof (induction fn wait m attempts attempt d le s rule: retry_loop.induct)
  case (1 fn wait m attempts attempt d le s)
  note fn_fail = "1.prems"(1) and wait_keeps = "1.prems"(2) and JI = "1.prems"(3)
  note le = "1.prems"(4) and Is = "1.prems"(5) and run = "1.prems"(6)
  obtain x s1 where f: "fn s attempt = (x, s1)" by (cases "fn s attempt")
  show ?case
  proof (cases x)
    case None
    with f run le have "r = None" "s' = s1" by (simp_all add: retry_loop.simps)
    with f None Is show ?thesis by auto
  next
    case (Some e)
    have J1: "J s1" using fn_fail[OF Is] f Some by blast
    show ?thesis
    proof (cases "attempt = attempts")
      case True
      with f Some run le have "r = Some e" "s' = s1" by (simp_all add: retry_loop.simps)
      with J1 show ?thesis by simp
    next
      case ne: False
      obtain c s2 where w: "wait d s1 = (c, s2)" by (cases "wait d s1")
      have J2: "J s2" using wait_keeps[OF J1 w] .
      show ?thesis
      proof (cases c)
        case True
        with f Some ne w run le have "r = Some ContextCanceled" "s' = s2" by (simp_all add: retry_loop.simps)
        with J2 show ?thesis by simp
      next
        case False
        with f Some ne w run le
        have rec: "retry_loop fn wait m attempts (attempt + 1) (next_delay m d) (Some e) s2 = (r, s')"
          by (simp add: retry_loop.simps)
        have "attempt + 1 \<le> attempts" using le ne by simp
        from "1.IH"[OF le f[symmetric] _ ne w[symmetric] _ fn_fail wait_keeps JI this JI[OF J2] rec] Some False
        show ?thesis by simp
      qed
    qed
  qed
qed

lemma retry_outcome:
  assumes fn_fail: "\<And>s a e s1. I s \<Longrightarrow> fn s a = (Some e, s1) \<Longrightarrow> J s1"
    and wait_keeps: "\<And>d s c s2. J s \<Longrightarrow> wait d s = (c, s2) \<Longrightarrow> J s2"
    and JI: "\<And>s. J s \<Longrightarrow> I s"
    and "I s" and "retry attempts b m fn wait s = (r, s')"
  shows "(r = None \<and> (\<exists>s0 a. I s0 \<and> fn s0 a = (None, s'))) \<or> (r \<noteq> None \<and> J s')"
  using assms(4,5) unfolding retry_def
  by (intro retry_loop_outcome[where I=I and J=J and fn=fn and wait=wait, OF fn_fail wait_keeps JI]) auto

section \<open>Remote operations through the executor\<close>

lemma tried_0: "tried c w 0 w" by (simp add: tried_def)

lemma tried_trans: "tried c w j w1 \<Longrightarrow> tried c w1 k w2 \<Longrightarrow> tried c w (j + k) w2"
  by (simp add: tried_def replicate_add)

lemma begin_call_tried: "begin_call c w = (x, w1) \<Longrightarrow> tried c w 1 w1"
  by (auto simp: begin_call_def tried_def split: list.splits)

lemma ctx_wait_tried: "ctx_wait d w = (x, w1) \<Longrightarrow> tried c w 0 w1"
  by (auto simp: ctx_wait_def tried_def split: list.splits)

lemma wait_on_tried: "wait_on d s = (x, s1) \<Longrightarrow> tried c (fst s) 0 (fst s1)"
  by (auto simp: wait_on_def split: prod.splits dest: ctx_wait_tried)

text \<open>
  A closure whose failed invocation is one attempt of the call \<open>c\<close> and changes nothing
  else: through the executor it either succeeds on a state reached by attempts of \<open>c\<close>
  alone, or fails after at least one attempt.
\<close>

lemma withRetry_remote:
  assumes step: "\<And>s e s1. fn s = (Some e, s1) \<Longrightarrow> tried c (fst s) 1 (fst s1)"
    and run: "withRetry cfg label fn (w, v) = (r, (w', v'))"
  shows "(r = None \<and> (\<exists>w0 v0 k. tried c w k w0 \<and> fn (w0, v0) = (None, (w', v')))) \<or>
         (r \<noteq> None \<and> (\<exists>k. tried c w (Suc k) w'))"
proof -
  let ?I = "\<lambda>s. \<exists>k. tried c w k (fst s)"
  let ?J = "\<lambda>s. \<exists>k. tried c w (Suc k) (fst s)"
  have a: "\<And>s a e s1. ?I s \<Longrightarrow> withTimeout fn s = (Some e, s1) \<Longrightarrow> ?J s1"
  proof -
    fix s a e s1 assume "?I s" and f: "withTimeout fn s = (Some e, s1)"
    then obtain k where "tried c w k (fst s)" by blast
    moreover have "tried c (fst s) 1 (fst s1)" using step f by (simp add: withTimeout_def)
    ultimately have "tried c w (k + 1) (fst s1)" by (rule tried_trans)
    then show "?J s1" by auto
  qed
  have b: "\<And>d s x s2. ?J s \<Longrightarrow> wait_on d s = (x, s2) \<Longrightarrow> ?J s2"
  proof -
    fix d s x s2 assume "?J s" and f: "wait_on d s = (x, s2)"
    then obtain k where "tried c w (Suc k) (fst s)" by blast
    from tried_trans[OF this wait_on_tried[OF f]] show "?J s2" by auto
  qed
  have c: "\<And>s. ?J s \<Longrightarrow> ?I s" by blast
  have i: "?I (w, v)" using tried_0 by (intro exI[of _ 0]) simp
  from retry_outcome[where I="?I" and J="?J", OF a b c i run[unfolded withRetry_def]]
  show ?thesis by (auto simp: withTimeout_def)
qed

lemma tried_rrsets: "tried c w k w' \<Longrightarrow> rrsets w' = rrsets w"
  by (simp add: tried_def)

lemma tried_Suc: "tried c w k w0 \<Longrightarrow> tried c w0 1 w' \<Longrightarrow> tried c w (Suc k) w'"
  using tried_trans[of c w k w0 1 w'] by simp

text \<open>The lookup of a record set.\<close>

lemma getRRSet_op_fail: "getRRSet_op z n T s = (Some e, s1) \<Longrightarrow> tried (CallGetRRSet z n T) (fst s) 1 (fst s1)"
  by (auto simp: getRRSet_op_def GetRRSetByNameAndType_def split: prod.splits option.splits sum.splits
      dest: begin_call_tried)

lemma getRRSet_op_ok:
  "getRRSet_op z n T (w0, v0) = (None, (w', v')) \<Longrightarrow>
   tried (CallGetRRSet z n T) w0 1 w' \<and>
   v' = (case rrsets w0 (z, n, T) of None \<Rightarrow> None
         | Some (t, vs) \<Rightarrow> Some \<lparr>rr_Zone = z, rr_Name = n, rr_Type = T, rr_TTL = t, rr_Records = vs\<rparr>)"
  by (auto simp: getRRSet_op_def GetRRSetByNameAndType_def tried_rrsets split: prod.splits option.splits sum.splits
      dest!: begin_call_tried)

lemma get_rrset_spec:
  assumes "withRetry cfg label (getRRSet_op z n T) (w, v) = (r, (w', v'))"
  shows "\<exists>k. tried (CallGetRRSet z n T) w (Suc k) w' \<and>
     (r = None \<longrightarrow> v' = (case rrsets w (z, n, T) of None \<Rightarrow> None
         | Some (t, vs) \<Rightarrow> Some \<lparr>rr_Zone = z, rr_Name = n, rr_Type = T, rr_TTL = t, rr_Records = vs\<rparr>))"
proof -
  from withRetry_remote[where c="CallGetRRSet z n T", OF getRRSet_op_fail assms]
  show ?thesis
  proof
    assume "r = None \<and> (\<exists>w0 v0 k. tried (CallGetRRSet z n T) w k w0 \<and> getRRSet_op z n T (w0, v0) = (None, (w', v')))"
    then obtain w0 v0 k where r: "r = None" and t: "tried (CallGetRRSet z n T) w k w0"
      and ok: "getRRSet_op z n T (w0, v0) = (None, (w', v'))" by blast
    from getRRSet_op_ok[OF ok] tried_Suc[OF t] tried_rrsets[OF t] r
    show ?thesis by (intro exI[of _ k]) auto
  next
    assume "r \<noteq> None \<and> (\<exists>k. tried (CallGetRRSet z n T) w (Suc k) w')"
    then show ?thesis by auto
  qed
qed

text \<open>The mutations: create, append, replace, TTL change.\<close>

lemma tried_stepped: "tried c w k w' \<Longrightarrow> stepped c w k w'"
  by (simp add: tried_def stepped_def)

lemma stepped_after_tried: "tried c w j w0 \<Longrightarrow> stepped c w0 1 w' \<Longrightarrow> stepped c w (Suc j) w'"
  by (simp add: tried_def stepped_def replicate_append_same)

lemma createRRSet_op_fail:
  "createRRSet_op z n T ttl ip s = (Some e, s1) \<Longrightarrow> tried (CallCreateRRSet z n T ttl [ip]) (fst s) 1 (fst s1)"
  by (auto simp: createRRSet_op_def CreateRRSet_def split: prod.splits option.splits
      dest: begin_call_tried)

lemma createRRSet_op_ok:
  "createRRSet_op z n T ttl ip (w0, v0) = (None, (w', v')) \<Longrightarrow>
   stepped (CallCreateRRSet z n T ttl [ip]) w0 1 w' \<and> rrsets w0 (z, n, T) = None \<and>
   rrsets w' = (rrsets w0)((z, n, T) \<mapsto> (ttl, [ip]))"
  by (auto simp: createRRSet_op_def CreateRRSet_def tried_def stepped_def split: prod.splits option.splits
      dest!: begin_call_tried)

lemma addRecords_op_fail:
  "addRecords_op rs ip ttl s = (Some e, s1) \<Longrightarrow> tried (CallAddRRSetRecords rs [ip] ttl) (fst s) 1 (fst s1)"
  by (auto simp: addRecords_op_def AddRRSetRecords_def split: prod.splits option.splits
      dest: begin_call_tried)

lemma addRecords_op_ok:
  "addRecords_op rs ip ttl (w0, v0) = (None, (w', v')) \<Longrightarrow>
   stepped (CallAddRRSetRecords rs [ip] ttl) w0 1 w' \<and>
   rrsets w' = (rrsets w0)(rrkey rs \<mapsto>
      (case rrsets w0 (rrkey rs) of None \<Rightarrow> (ttl, [ip])
       | Some (t, vs) \<Rightarrow> (case ttl of None \<Rightarrow> t | Some n \<Rightarrow> Some n, vs @ [ip])))"
  by (auto simp: addRecords_op_def AddRRSetRecords_def tried_def stepped_def split: prod.splits option.splits
      dest!: begin_call_tried)

lemma setRecords_op_fail:
  "setRecords_op rs ip s = (Some e, s1) \<Longrightarrow> tried (CallSetRRSetRecords rs [ip]) (fst s) 1 (fst s1)"
  by (auto simp: setRecords_op_def SetRRSetRecords_def split: prod.splits option.splits
      dest: begin_call_tried)

lemma setRecords_op_ok:
  "setRecords_op rs ip (w0, v0) = (None, (w', v')) \<Longrightarrow>
   stepped (CallSetRRSetRecords rs [ip]) w0 1 w' \<and>
   (\<exists>t vs. rrsets w0 (rrkey rs) = Some (t, vs) \<and> rrsets w' = (rrsets w0)(rrkey rs \<mapsto> (t, [ip])))"
  by (auto simp: setRecords_op_def SetRRSetRecords_def tried_def stepped_def split: prod.splits option.splits
      dest!: begin_call_tried)

lemma changeTTL_op_fail:
  "changeTTL_op rs ttl s = (Some e, s1) \<Longrightarrow> tried (CallChangeRRSetTTL rs ttl) (fst s) 1 (fst s1)"
  by (auto simp: changeTTL_op_def ChangeRRSetTTL_def split: prod.splits option.splits
      dest: begin_call_tried)

lemma changeTTL_op_ok:
  "changeTTL_op rs ttl (w0, v0) = (None, (w', v')) \<Longrightarrow>
   stepped (CallChangeRRSetTTL rs ttl) w0 1 w' \<and>
   (\<exists>t vs. rrsets w0 (rrkey rs) = Some (t, vs) \<and> rrsets w' = (rrsets w0)(rrkey rs \<mapsto> (ttl, vs)))"
  by (auto simp: changeTTL_op_def ChangeRRSetTTL_def tried_def stepped_def split: prod.splits option.splits
      dest!: begin_call_tried)

text \<open>A mutation through the executor: either all attempts failed and the remote state is
  untouched, or one attempt succeeded on the untouched state.\<close>

lemma mutation_spec:
  assumes fail: "\<And>s e s1. fn s = (Some e, s1) \<Longrightarrow> tried c (fst s) 1 (fst s1)"
    and ok: "\<And>w0 v0 w' v'. fn (w0, v0) = (None, (w', v')) \<Longrightarrow> stepped c w0 1 w' \<and> rrsets w' = eff (rrsets w0) \<and> pre (rrsets w0)"
    and run: "withRetry cfg label fn (w, v) = (r, (w', v'))"
  shows "\<exists>k. stepped c w (Suc k) w' \<and>
           (if r = None then rrsets w' = eff (rrsets w) \<and> pre (rrsets w) else rrsets w' = rrsets w)"
proof -
  from withRetry_remote[where c=c, OF fail run]
  show ?thesis
  proof
    assume "r = None \<and> (\<exists>w0 v0 k. tried c w k w0 \<and> fn (w0, v0) = (None, (w', v')))"
    then obtain w0 v0 k where r: "r = None" and t: "tried c w k w0"
      and f: "fn (w0, v0) = (None, (w', v'))" by blast
    from ok[OF f] stepped_after_tried[OF t] tried_rrsets[OF t] r
    show ?thesis by (intro exI[of _ k]) auto
  next
    assume "r \<noteq> None \<and> (\<exists>k. tried c w (Suc k) w')"
    then show ?thesis by (auto dest: tried_stepped tried_rrsets)
  qed
qed

lemma create_spec:
  assumes "withRetry cfg label (createRRSet_op z n T ttl ip) (w, v) = (r, (w', v'))"
  shows "\<exists>k. stepped (CallCreateRRSet z n T ttl [ip]) w (Suc k) w' \<and>
           (if r = None then rrsets w' = (rrsets w)((z, n, T) \<mapsto> (ttl, [ip])) \<and> rrsets w (z, n, T) = None
            else rrsets w' = rrsets w)"
  by (rule mutation_spec[where fn="createRRSet_op z n T ttl ip"
        and eff="\<lambda>m. m((z, n, T) \<mapsto> (ttl, [ip]))" and pre="\<lambda>m. m (z, n, T) = None",
        OF createRRSet_op_fail _ assms]) (auto dest: createRRSet_op_ok)

lemma add_spec:
  assumes "withRetry cfg label (addRecords_op rs ip ttl) (w, v) = (r, (w', v'))"
  shows "\<exists>k. stepped (CallAddRRSetRecords rs [ip] ttl) w (Suc k) w' \<and>
           (if r = None then rrsets w' = (rrsets w)(rrkey rs \<mapsto>
                (case rrsets w (rrkey rs) of None \<Rightarrow> (ttl, [ip])
                 | Some (t, vs) \<Rightarrow> (case ttl of None \<Rightarrow> t | Some n \<Rightarrow> Some n, vs @ [ip]))) \<and> True
            else rrsets w' = rrsets w)"
  by (rule mutation_spec[where fn="addRecords_op rs ip ttl"
        and eff="\<lambda>m. m(rrkey rs \<mapsto>
                (case m (rrkey rs) of None \<Rightarrow> (ttl, [ip])
                 | Some (t, vs) \<Rightarrow> (case ttl of None \<Rightarrow> t | Some n \<Rightarrow> Some n, vs @ [ip])))" and pre="\<lambda>m. True",
        OF addRecords_op_fail _ assms]) (auto dest: addRecords_op_ok)

lemma set_spec:
  assumes "withRetry cfg label (setRecords_op rs ip) (w, v) = (r, (w', v'))"
  shows "\<exists>k. stepped (CallSetRRSetRecords rs [ip]) w (Suc k) w' \<and>
           (if r = None then rrsets w' = (rrsets w)(rrkey rs \<mapsto> (fst (the (rrsets w (rrkey rs))), [ip])) \<and>
                  rrsets w (rrkey rs) \<noteq> None
            else rrsets w' = rrsets w)"
  by (rule mutation_spec[where fn="setRecords_op rs ip"
        and eff="\<lambda>m. m(rrkey rs \<mapsto> (fst (the (m (rrkey rs))), [ip]))" and pre="\<lambda>m. m (rrkey rs) \<noteq> None",
        OF setRecords_op_fail _ assms]) (auto dest: setRecords_op_ok)

lemma changeTTL_spec:
  assumes "withRetry cfg label (changeTTL_op rs ttl) (w, v) = (r, (w', v'))"
  shows "\<exists>k. stepped (CallChangeRRSetTTL rs ttl) w (Suc k) w' \<and>
           (if r = None then rrsets w' = (rrsets w)(rrkey rs \<mapsto> (ttl, snd (the (rrsets w (rrkey rs))))) \<and>
                  rrsets w (rrkey rs) \<noteq> None
            else rrsets w' = rrsets w)"
  by (rule mutation_spec[where fn="changeTTL_op rs ttl"
        and eff="\<lambda>m. m(rrkey rs \<mapsto> (ttl, snd (the (m (rrkey rs)))))" and pre="\<lambda>m. m (rrkey rs) \<noteq> None",
        OF changeTTL_op_fail _ assms]) (auto dest: changeTTL_op_ok)

text \<open>The ways \<open>ensureTTL\<close> and \<open>updateRecord\<close> can run.\<close>

lemma ensureTTL_cases [consumes 1, case_names nothing changed change_failed]:
  assumes run: "ensureTTL cfg zn rs ttl w = (r, w')"
  obtains (nothing) "ttl = None \<or> rr_TTL rs = ttl" "r = None" "w' = w"
  | (changed) t j where "ttl = Some t" "rr_TTL rs \<noteq> Some t" "r = None"
      "stepped (CallChangeRRSetTTL rs ttl) w (Suc j) w'"
      "rrsets w (rrkey rs) \<noteq> None"
      "rrsets w' = (rrsets w)(rrkey rs \<mapsto> (ttl, snd (the (rrsets w (rrkey rs)))))"
  | (change_failed) t j where "ttl = Some t" "rr_TTL rs \<noteq> Some t" "r \<noteq> None"
      "stepped (CallChangeRRSetTTL rs ttl) w (Suc j) w'" "rrsets w' = rrsets w"
proof (cases "ttl = None \<or> rr_TTL rs = ttl")
  case True
  with run have "r = None" "w' = w" by (auto simp: ensureTTL_def split: option.splits)
  with True show ?thesis by (rule nothing)
next
  case False
  then obtain t where t: "ttl = Some t" "rr_TTL rs \<noteq> Some t" by auto
  obtain r0 w1 u where wr: "withRetry cfg ''change rrset ttl'' (changeTTL_op rs ttl) (w, ()) = (r0, (w1, u))"
    by (metis prod.exhaust)
  from run t wr have w': "w' = w1" and r: "(r = None) = (r0 = None)"
    by (auto simp: ensureTTL_def split: option.splits)
  from changeTTL_spec[OF wr] obtain j where
    s: "stepped (CallChangeRRSetTTL rs ttl) w (Suc j) w1" and
    e: "if r0 = None then rrsets w1 = (rrsets w)(rrkey rs \<mapsto> (ttl, snd (the (rrsets w (rrkey rs))))) \<and>
                  rrsets w (rrkey rs) \<noteq> None
            else rrsets w1 = rrsets w" by blast
  show ?thesis
  proof (cases "r = None")
    case True
    with r e w' s t show ?thesis by (intro changed[of t j]) auto
  next
    case False
    with r e w' s t show ?thesis by (intro change_failed[of t j]) auto
  qed
qed

lemma updateRecord_cases [consumes 1, case_names lookup_failed create keep append_failed append replace_failed replace]:
  assumes run: "updateRecord cfg zone rt name ip ttl w = (r, w')"
  obtains
    (lookup_failed) k where "r \<noteq> None"
      "tried (CallGetRRSet zone name (ToUpper (TrimSpace rt))) w (Suc k) w'"
  | (create) k w1 j where
      "tried (CallGetRRSet zone name (ToUpper (TrimSpace rt))) w (Suc k) w1"
      "rrsets w (zone, name, ToUpper (TrimSpace rt)) = None"
      "stepped (CallCreateRRSet zone name (ToUpper (TrimSpace rt)) ttl [ip]) w1 (Suc j) w'"
      "if r = None then rrsets w' = (rrsets w)((zone, name, ToUpper (TrimSpace rt)) \<mapsto> (ttl, [ip]))
       else rrsets w' = rrsets w"
  | (keep) k w1 t0 vs rs where
      "tried (CallGetRRSet zone name (ToUpper (TrimSpace rt))) w (Suc k) w1"
      "rrsets w (zone, name, ToUpper (TrimSpace rt)) = Some (t0, vs)"
      "rs = \<lparr>rr_Zone = zone, rr_Name = name, rr_Type = ToUpper (TrimSpace rt), rr_TTL = t0, rr_Records = vs\<rparr>"
      "rrsetHasValue rs ip" "PreserveRecords cfg \<or> length vs \<le> 1"
      "ensureTTL cfg (zone_Name zone) rs ttl w1 = (r, w')"
  | (append_failed) k w1 t0 vs rs j where
      "tried (CallGetRRSet zone name (ToUpper (TrimSpace rt))) w (Suc k) w1"
      "rrsets w (zone, name, ToUpper (TrimSpace rt)) = Some (t0, vs)"
      "rs = \<lparr>rr_Zone = zone, rr_Name = name, rr_Type = ToUpper (TrimSpace rt), rr_TTL = t0, rr_Records = vs\<rparr>"
      "\<not> rrsetHasValue rs ip" "PreserveRecords cfg" "length vs > 1"
      "r \<noteq> None" "stepped (CallAddRRSetRecords rs [ip] ttl) w1 (Suc j) w'" "rrsets w' = rrsets w"
  | (append) k w1 t0 vs rs j w2 where
      "tried (CallGetRRSet zone name (ToUpper (TrimSpace rt))) w (Suc k) w1"
      "rrsets w (zone, name, ToUpper (TrimSpace rt)) = Some (t0, vs)"
      "rs = \<lparr>rr_Zone = zone, rr_Name = name, rr_Type = ToUpper (TrimSpace rt), rr_TTL = t0, rr_Records = vs\<rparr>"
      "\<not> rrsetHasValue rs ip" "PreserveRecords cfg" "length vs > 1"
      "stepped (CallAddRRSetRecords rs [ip] ttl) w1 (Suc j) w2"
      "rrsets w2 = (rrsets w)((zone, name, ToUpper (TrimSpace rt)) \<mapsto>
          (case ttl of None \<Rightarrow> t0 | Some n \<Rightarrow> Some n, vs @ [ip]))"
      "ensureTTL cfg (zone_Name zone) rs ttl w2 = (r, w')"
  | (replace_failed) k w1 t0 vs rs j where
      "tried (CallGetRRSet zone name (ToUpper (TrimSpace rt))) w (Suc k) w1"
      "rrsets w (zone, name, ToUpper (TrimSpace rt)) = Some (t0, vs)"
      "rs = \<lparr>rr_Zone = zone, rr_Name = name, rr_Type = ToUpper (TrimSpace rt), rr_TTL = t0, rr_Records = vs\<rparr>"
      "\<not> (rrsetHasValue rs ip \<and> (PreserveRecords cfg \<or> length vs \<le> 1))"
      "\<not> (PreserveRecords cfg \<and> length vs > 1)"
      "r \<noteq> None" "stepped (CallSetRRSetRecords rs [ip]) w1 (Suc j) w'" "rrsets w' = rrsets w"
  | (replace) k w1 t0 vs rs j w2 where
      "tried (CallGetRRSet zone name (ToUpper (TrimSpace rt))) w (Suc k) w1"
      "rrsets w (zone, name, ToUpper (TrimSpace rt)) = Some (t0, vs)"
      "rs = \<lparr>rr_Zone = zone, rr_Name = name, rr_Type = ToUpper (TrimSpace rt), rr_TTL = t0, rr_Records = vs\<rparr>"
      "\<not> (rrsetHasValue rs ip \<and> (PreserveRecords cfg \<or> length vs \<le> 1))"
      "\<not> (PreserveRecords cfg \<and> length vs > 1)"
      "stepped (CallSetRRSetRecords rs [ip]) w1 (Suc j) w2"
      "rrsets w2 = (rrsets w)((zone, name, ToUpper (TrimSpace rt)) \<mapsto> (t0, [ip]))"
      "ensureTTL cfg (zone_Name zone) rs ttl w2 = (r, w')"
proof -
  define T where "T = ToUpper (TrimSpace rt)"
  obtain r0 w1 x where g: "withRetry cfg ''get rrset'' (getRRSet_op zone name T) (w, None) = (r0, (w1, x))"
    by (metis prod.exhaust)
  from get_rrset_spec[OF g] obtain k where
    t1: "tried (CallGetRRSet zone name T) w (Suc k) w1" and
    x: "r0 = None \<Longrightarrow> x = (case rrsets w (zone, name, T) of None \<Rightarrow> None
         | Some (t, vs) \<Rightarrow> Some \<lparr>rr_Zone = zone, rr_Name = name, rr_Type = T, rr_TTL = t, rr_Records = vs\<rparr>)"
    by blast
  have m1: "rrsets w1 = rrsets w" using t1 by (rule tried_rrsets)
  show thesis
  proof (cases r0)
    case (Some e)
    with run g have "r \<noteq> None" "w' = w1" by (auto simp: updateRecord_def T_def)
    with t1 show thesis unfolding T_def by (intro lookup_failed[of k]) auto
  next
    case None
    note x = x[OF None]
    show thesis
    proof (cases "rrsets w (zone, name, T)")
      case absent: None
      with x have xn: "x = None" by simp
      obtain r1 w2 u where c: "withRetry cfg ''create rrset'' (createRRSet_op zone name T ttl ip) (w1, ()) = (r1, (w2, u))"
        by (metis prod.exhaust)
      from run g None xn c have w': "w' = w2" and r: "(r = None) = (r1 = None)"
        by (auto simp: updateRecord_def T_def split: option.splits)
      from create_spec[OF c] obtain j where
        "stepped (CallCreateRRSet zone name T ttl [ip]) w1 (Suc j) w2"
        "if r1 = None then rrsets w2 = (rrsets w1)((zone, name, T) \<mapsto> (ttl, [ip])) \<and> rrsets w1 (zone, name, T) = None
            else rrsets w2 = rrsets w1" by blast
      with t1 absent w' r m1 show thesis unfolding T_def
        by (intro create[of k w1 j]) (auto split: if_splits)
    next
      case (Some p)
      obtain t0 vs where p: "p = (t0, vs)" by (cases p)
      define rs where "rs = \<lparr>rr_Zone = zone, rr_Name = name, rr_Type = T, rr_TTL = t0, rr_Records = vs\<rparr>"
      have xs: "x = Some rs" using x Some p by (simp add: rs_def)
      have pres: "rrsets w (zone, name, T) = Some (t0, vs)" using Some p by simp
      have key: "rrkey rs = (zone, name, T)" by (simp add: rrkey_def rs_def)
      have len: "length (rr_Records rs) = length vs" by (simp add: rs_def)
      show thesis
      proof (cases "rrsetHasValue rs ip \<and> (PreserveRecords cfg \<or> length vs \<le> 1)")
        case True
        with run g None xs len have "ensureTTL cfg (zone_Name zone) rs ttl w1 = (r, w')"
          by (auto simp: updateRecord_def T_def[symmetric])
        with t1 pres True show thesis unfolding T_def rs_def
          by (intro keep[of k w1 t0 vs]) auto
      next
        case nk: False
        show thesis
        proof (cases "PreserveRecords cfg \<and> length vs > 1")
          case True
          with nk have nh: "\<not> rrsetHasValue rs ip" by auto
          obtain r1 w2 u where a: "withRetry cfg ''add rrset record'' (addRecords_op rs ip ttl) (w1, ()) = (r1, (w2, u))"
            by (metis prod.exhaust)
          from add_spec[OF a] obtain j where
            st: "stepped (CallAddRRSetRecords rs [ip] ttl) w1 (Suc j) w2" and
            ef: "if r1 = None then rrsets w2 = (rrsets w1)(rrkey rs \<mapsto>
                (case rrsets w1 (rrkey rs) of None \<Rightarrow> (ttl, [ip])
                 | Some (t, vs) \<Rightarrow> (case ttl of None \<Rightarrow> t | Some n \<Rightarrow> Some n, vs @ [ip]))) \<and> True
              else rrsets w2 = rrsets w1" by blast
          show thesis
          proof (cases r1)
            case (Some e)
            with run g None xs len True nh a have "r \<noteq> None" "w' = w2"
              by (auto simp: updateRecord_def T_def[symmetric])
            with t1 pres True nh st ef Some m1 show thesis unfolding T_def rs_def
              by (intro append_failed[of k w1 t0 vs _ j]) auto
          next
            case r1n: None
            with run g None xs len True nh a have "ensureTTL cfg (zone_Name zone) rs ttl w2 = (r, w')"
              by (auto simp: updateRecord_def T_def[symmetric])
            moreover have "rrsets w2 = (rrsets w)((zone, name, T) \<mapsto>
               (case ttl of None \<Rightarrow> t0 | Some n \<Rightarrow> Some n, vs @ [ip]))"
              using ef r1n m1 key pres by simp
            ultimately show thesis using t1 pres True nh st unfolding T_def rs_def
              by (intro append[of k w1 t0 vs _ j w2]) auto
          qed
        next
          case na: False
          obtain r1 w2 u where a: "withRetry cfg ''set rrset records'' (setRecords_op rs ip) (w1, ()) = (r1, (w2, u))"
            by (metis prod.exhaust)
          from set_spec[OF a] obtain j where
            st: "stepped (CallSetRRSetRecords rs [ip]) w1 (Suc j) w2" and
            ef: "if r1 = None then rrsets w2 = (rrsets w1)(rrkey rs \<mapsto> (fst (the (rrsets w1 (rrkey rs))), [ip])) \<and>
                  rrsets w1 (rrkey rs) \<noteq> None
              else rrsets w2 = rrsets w1" by blast
          have branch: "\<not> (rrsetHasValue rs ip \<and> \<not> (\<not> PreserveRecords cfg \<and> length (rr_Records rs) > 1))"
            using nk len by auto
          have branch2: "\<not> (PreserveRecords cfg \<and> length (rr_Records rs) > 1)" using na len by simp
          show thesis
          proof (cases r1)
            case (Some e)
            with run g None xs branch branch2 a have "r \<noteq> None" "w' = w2"
              by (auto simp: updateRecord_def T_def[symmetric])
            with t1 pres nk na st ef Some m1 show thesis unfolding T_def rs_def
              by (intro replace_failed[of k w1 t0 vs _ j]) auto
          next
            case r1n: None
            with run g None xs branch branch2 a have "ensureTTL cfg (zone_Name zone) rs ttl w2 = (r, w')"
              by (auto simp: updateRecord_def T_def[symmetric])
            moreover have "rrsets w2 = (rrsets w)((zone, name, T) \<mapsto> (t0, [ip]))"
              using ef r1n m1 key pres by simp
            ultimately show thesis using t1 pres nk na st unfolding T_def rs_def
              by (intro replace[of k w1 t0 vs _ j w2]) auto
          qed
        qed
      qed
    qed
  qed
qed

section \<open>The retry executor: invocations and waits\<close>

text \<open>
  Claim C5, as amended. Provided the context is not cancelled during a backoff wait: an
  operation that fails on its first \<open>k - 1\<close> invocations and succeeds on invocation
  \<open>k \<le> maxAttempts\<close> is invoked exactly \<open>k\<close> times and the executor returns
  success; an operation that fails on every invocation is invoked exactly
  \<open>max 1 maxAttempts\<close> times and the executor returns the error of the last invocation
  unchanged.
\<close>

theorem retry_invocation_count:
  assumes "\<forall>i. \<not> can i"
  shows "(1 \<le> k \<and> k \<le> a \<and> (\<forall>i. 1 \<le> i \<and> i < k \<longrightarrow> out i \<noteq> None) \<and> out k = None \<longrightarrow>
            fst (retry a b m (h_op out) (h_wait can) h0) = None \<and>
            invocations (snd (retry a b m (h_op out) (h_wait can) h0)) = nat k) \<and>
         ((\<forall>i. 1 \<le> i \<longrightarrow> out i \<noteq> None) \<longrightarrow>
            fst (retry a b m (h_op out) (h_wait can) h0) = out (max 1 a) \<and>
            invocations (snd (retry a b m (h_op out) (h_wait can) h0)) = nat (max 1 a))"
  using retry_succeeds_at[OF assms, of k a out b m] retry_exhausts[OF assms, of out a b m]
  by blast

theorem retry_invocation_count_witness:
  "(1::int) \<le> 3 \<and> (3::int) \<le> 5 \<and>
   fails_twice 1 \<noteq> None \<and> fails_twice 2 \<noteq> None \<and> fails_twice 3 = None \<and>
   fst (retry 5 500000000 5000000000 (h_op fails_twice) (h_wait never) h0) = None \<and>
   invocations (snd (retry 5 500000000 5000000000 (h_op fails_twice) (h_wait never) h0)) = 3 \<and>
   fst (retry 0 500000000 5000000000 (h_op always_fails) (h_wait never) h0) = Some (Upstream ''timeout'') \<and>
   invocations (snd (retry 0 500000000 5000000000 (h_op always_fails) (h_wait never) h0)) = 1"
proof -
  have nc: "\<forall>i. \<not> never i" by (simp add: never_def)
  have f: "\<forall>i. 1 \<le> i \<and> i < 3 \<longrightarrow> fails_twice i \<noteq> None" by (simp add: fails_twice_def)
  have s: "fails_twice 3 = None" by (simp add: fails_twice_def)
  have g: "\<forall>i. 1 \<le> i \<longrightarrow> always_fails i \<noteq> None" by (simp add: always_fails_def)
  from retry_invocation_count[OF nc, of 3 5 fails_twice 500000000 5000000000] f s
  have 1: "fst (retry 5 500000000 5000000000 (h_op fails_twice) (h_wait never) h0) = None \<and>
   invocations (snd (retry 5 500000000 5000000000 (h_op fails_twice) (h_wait never) h0)) = 3" by simp
  from retry_invocation_count[OF nc, of 1 0 always_fails 500000000 5000000000] g
  have 2: "fst (retry 0 500000000 5000000000 (h_op always_fails) (h_wait never) h0) = Some (Upstream ''timeout'') \<and>
   invocations (snd (retry 0 500000000 5000000000 (h_op always_fails) (h_wait never) h0)) = 1"
    by (simp add: always_fails_def)
  from s 1 2 show ?thesis by (simp add: fails_twice_def)
qed

text \<open>
  Claim C5 as stated fails when the context is cancelled during the first wait: the
  operation fails on every invocation and three attempts are allowed, yet it is invoked
  once and the executor returns the context's error, not the operation's.
\<close>

theorem retry_cancelled_counterexample:
  "always_fails 1 \<noteq> None \<and> always_fails 2 \<noteq> None \<and> always_fails 3 \<noteq> None \<and>
   fst (retry 3 500000000 5000000000 (h_op always_fails) (h_wait at_once) h0) = Some ContextCanceled \<and>
   fst (retry 3 500000000 5000000000 (h_op always_fails) (h_wait at_once) h0) \<noteq> always_fails 3 \<and>
   invocations (snd (retry 3 500000000 5000000000 (h_op always_fails) (h_wait at_once) h0)) = 1"
  by (simp add: retry_def retry_loop.simps h_op_def h_wait_def h0_def always_fails_def at_once_def)

lemma backoff_500ms:
  "backoff 500000000 5000000000 i = (if i < 4 then 500000000 * 2 ^ i else 5000000000)"
proof (induction i)
  case 0
  show ?case by simp
next
  case (Suc i)
  have eq: "backoff 500000000 5000000000 (Suc i) =
      min (2 * (if i < 4 then 500000000 * 2 ^ i else 5000000000)) 5000000000"
    using Suc by simp
  consider "i = 0" | "i = 1" | "i = 2" | "i = 3" | "4 \<le> i" by linarith
  then show ?case unfolding eq by cases simp_all
qed

text \<open>
  Claim C6, as amended. For delays below \<open>2^62\<close> ns (about 146 years), where doubling
  cannot overflow the 64-bit duration: in every run of the executor the waits are, in
  order, \<open>baseDelay\<close>, then each time the double of the previous wait capped at
  \<open>maxDelay\<close>; a run whose operation always fails and that is not cancelled waits
  \<open>max 1 maxAttempts - 1\<close> times. For 500 ms and 5 s the sequence is 500 ms, 1 s, 2 s,
  4 s and 5 s from then on.
\<close>

theorem retry_backoff_sequence:
  assumes "0 \<le> b" "b < 2 ^ 62" "0 \<le> m" "m < 2 ^ 62"
  shows "waited (snd (retry a b m (h_op out) (h_wait can) h0)) =
           map (backoff b m) [0..<length (waited (snd (retry a b m (h_op out) (h_wait can) h0)))] \<and>
         ((\<forall>i. 1 \<le> i \<longrightarrow> out i \<noteq> None) \<and> (\<forall>i. \<not> can i) \<longrightarrow>
            length (waited (snd (retry a b m (h_op out) (h_wait can) h0))) = nat (max 1 a) - 1) \<and>
         (\<forall>i. backoff 500000000 5000000000 i = (if i < 4 then 500000000 * 2 ^ i else 5000000000))"
proof -
  obtain r s' where run: "retry a b m (h_op out) (h_wait can) h0 = (r, s')" by (cases "retry a b m (h_op out) (h_wait can) h0")
  from loop_waits[OF run[unfolded retry_def]] obtain n where
    "waited s' = waited h0 @ map (\<lambda>i. (next_delay m ^^ i) b) [0..<n]" by blast
  then have "waited s' = map (backoff b m) [0..<n]"
    using next_delay_pow_backoff[OF assms] by (simp add: h0_def)
  then have "waited s' = map (backoff b m) [0..<length (waited s')]" by simp
  moreover have "(\<forall>i. 1 \<le> i \<longrightarrow> out i \<noteq> None) \<and> (\<forall>i. \<not> can i) \<longrightarrow> length (waited s') = nat (max 1 a) - 1"
    using retry_exhausts[of can out a b m] run by auto
  ultimately show ?thesis using run backoff_500ms by simp
qed

theorem retry_backoff_sequence_witness:
  "(0::int) \<le> 500000000 \<and> (500000000::int) < 2 ^ 62 \<and> (0::int) \<le> 5000000000 \<and> (5000000000::int) < 2 ^ 62 \<and>
   waited (snd (retry 7 500000000 5000000000 (h_op always_fails) (h_wait never) h0)) =
     [500000000, 1000000000, 2000000000, 4000000000, 5000000000, 5000000000]"
proof -
  have h: "(0::int) \<le> 500000000" "(500000000::int) < 2 ^ 62" "(0::int) \<le> 5000000000" "(5000000000::int) < 2 ^ 62"
    by simp_all
  have g: "(\<forall>i. 1 \<le> i \<longrightarrow> always_fails i \<noteq> None) \<and> (\<forall>i. \<not> never i)" by (simp add: always_fails_def never_def)
  note t = retry_backoff_sequence[OF h, of 7 always_fails never]
  from t g have "length (waited (snd (retry 7 500000000 5000000000 (h_op always_fails) (h_wait never) h0))) =
      nat (max 1 7) - 1" by blast
  then have l: "length (waited (snd (retry 7 500000000 5000000000 (h_op always_fails) (h_wait never) h0))) = 6"
    by simp
  from t have "waited (snd (retry 7 500000000 5000000000 (h_op always_fails) (h_wait never) h0)) =
      map (backoff 500000000 5000000000)
        [0..<length (waited (snd (retry 7 500000000 5000000000 (h_op always_fails) (h_wait never) h0)))]"
    by blast
  then have w: "waited (snd (retry 7 500000000 5000000000 (h_op always_fails) (h_wait never) h0)) =
      map (backoff 500000000 5000000000) [0..<6]" unfolding l .
  have "map (backoff 500000000 5000000000) [0..<6] = [500000000, 1000000000, 2000000000, 4000000000, 5000000000, 5000000000]"
    by (simp add: upt_rec numeral_eq_Suc)
  with w h show ?thesis by simp
qed

text \<open>
  Claim C6 as stated fails where the doubling overflows: with a base delay of \<open>2^62\<close> ns
  and a maximum of \<open>2^63 - 1\<close> ns (both accepted by the configuration loader) the second
  wait is \<open>- 2^63\<close> ns, not the capped double \<open>2^63 - 1\<close>.
\<close>

theorem retry_backoff_overflow_counterexample:
  "(0::int) < 2 ^ 62 \<and> (2::int) ^ 62 \<le> 2 ^ 63 - 1 \<and>
   waited (snd (retry 3 (2 ^ 62) (2 ^ 63 - 1) (h_op always_fails) (h_wait never) h0)) = [2 ^ 62, - (2 ^ 63)] \<and>
   min (2 * 2 ^ 62) (2 ^ 63 - 1 :: int) = 2 ^ 63 - 1"
  by (simp add: retry_def retry_loop.simps h_op_def h_wait_def h0_def never_def always_fails_def next_delay_def wrap64_def)

section \<open>Address-family validation\<close>

lemmas text_simps = ToUpper_def TrimSpace_def isSpace_def upperChar_def

lemma normalizeIP_A:
  "ToUpper (TrimSpace rt) = ''A'' \<Longrightarrow>
   normalizeIP rt ip = (case To4 ip of
       None \<Rightarrow> Inl (Plain ''IP provider returned non-IPv4 address for A record'')
     | Some ipv4 \<Rightarrow> Inr (IP_String ipv4))"
  by (simp add: normalizeIP_def)

lemma normalizeIP_AAAA:
  "ToUpper (TrimSpace rt) = ''AAAA'' \<Longrightarrow>
   normalizeIP rt ip = (case To4 ip of
       Some ipv4 \<Rightarrow> Inl (Plain ''IP provider returned IPv4 address for AAAA record'')
     | None \<Rightarrow> Inr (IP_String ip))"
  by (simp add: normalizeIP_def)

lemma To4_mapped:
  "To4 [0, 0, 0, 0, 0, 0, 0, 0, 0, 0, 0xff, 0xff, a, b, c, d] = Some [a, b, c, d]"
  by (simp add: To4_def)

lemma syncZone_validation_failure:
  assumes "ipCache st (zc_IPProviderURL z) = Some ip" "normalizeIP (zc_RecordType z) ip = Inl e"
  shows "syncZone cfg st z = st\<lparr>errs := errs st @ [Wrap (''zone '' @ zc_Name z @ '' ip validation'') e]\<rparr>"
  using assms by (simp add: syncZone_def resolveIP_def)

text \<open>
  Claim C8. For a zone of type A, normalization succeeds exactly when \<open>To4\<close> gives a
  4-byte form; for a zone of type AAAA it fails exactly then, and an IPv4-mapped IPv6
  address is such a case. A validation failure is recorded once as the zone's
  ``ip validation'' error and nothing is tried again: the cycle state is otherwise
  unchanged, so no remote call and no wait is made for the zone.
\<close>

theorem normalizeIP_address_family:
  "(ToUpper (TrimSpace rt) = ''A'' \<longrightarrow>
      ((\<exists>s. normalizeIP rt ip = Inr s) \<longleftrightarrow> To4 ip \<noteq> None) \<and>
      (To4 ip = None \<longrightarrow>
         normalizeIP rt ip = Inl (Plain ''IP provider returned non-IPv4 address for A record''))) \<and>
   (ToUpper (TrimSpace rt) = ''AAAA'' \<longrightarrow>
      ((\<exists>e. normalizeIP rt ip = Inl e) \<longleftrightarrow> To4 ip \<noteq> None) \<and>
      (To4 ip \<noteq> None \<longrightarrow>
         normalizeIP rt ip = Inl (Plain ''IP provider returned IPv4 address for AAAA record'')) \<and>
      normalizeIP rt [0, 0, 0, 0, 0, 0, 0, 0, 0, 0, 0xff, 0xff, a, b, c, d] =
         Inl (Plain ''IP provider returned IPv4 address for AAAA record'')) \<and>
   (ipCache st (zc_IPProviderURL z) = Some ip \<and> normalizeIP (zc_RecordType z) ip = Inl e \<longrightarrow>
      syncZone cfg st z =
        st\<lparr>errs := errs st @ [Wrap (''zone '' @ zc_Name z @ '' ip validation'') e]\<rparr>)"
proof (intro conjI impI)
  assume a: "ToUpper (TrimSpace rt) = ''A''"
  show "(\<exists>s. normalizeIP rt ip = Inr s) \<longleftrightarrow> To4 ip \<noteq> None"
    by (auto simp: normalizeIP_A[OF a] split: option.splits)
  show "normalizeIP rt ip = Inl (Plain ''IP provider returned non-IPv4 address for A record'')"
    if "To4 ip = None" using that by (simp add: normalizeIP_A[OF a])
next
  assume a: "ToUpper (TrimSpace rt) = ''AAAA''"
  show "(\<exists>e. normalizeIP rt ip = Inl e) \<longleftrightarrow> To4 ip \<noteq> None"
    by (auto simp: normalizeIP_AAAA[OF a] split: option.splits)
  show "normalizeIP rt ip = Inl (Plain ''IP provider returned IPv4 address for AAAA record'')"
    if "To4 ip \<noteq> None" using that by (auto simp: normalizeIP_AAAA[OF a] split: option.splits)
  show "normalizeIP rt [0, 0, 0, 0, 0, 0, 0, 0, 0, 0, 0xff, 0xff, a, b, c, d] =
         Inl (Plain ''IP provider returned IPv4 address for AAAA record'')"
    by (simp add: normalizeIP_AAAA[OF a] To4_mapped)
next
  assume "ipCache st (zc_IPProviderURL z) = Some ip \<and> normalizeIP (zc_RecordType z) ip = Inl e"
  then show "syncZone cfg st z =
        st\<lparr>errs := errs st @ [Wrap (''zone '' @ zc_Name z @ '' ip validation'') e]\<rparr>"
    by (simp add: syncZone_validation_failure)
qed

theorem normalizeIP_address_family_witness:
  "ToUpper (TrimSpace ''A'') = ''A'' \<and> To4 mapped_v4 = Some [203, 0, 113, 5] \<and>
   normalizeIP ''A'' mapped_v4 = Inr ''203.0.113.5'' \<and>
   To4 doc_v6 = None \<and>
   normalizeIP ''A'' doc_v6 = Inl (Plain ''IP provider returned non-IPv4 address for A record'') \<and>
   ToUpper (TrimSpace '' aaaa '') = ''AAAA'' \<and>
   normalizeIP '' aaaa '' mapped_v4 = Inl (Plain ''IP provider returned IPv4 address for AAAA record'') \<and>
   normalizeIP '' aaaa '' doc_v6 = Inr ''2001:db8::1''"
proof -
  have A: "ToUpper (TrimSpace ''A'') = ''A''" by (simp add: text_simps)
  have B: "ToUpper (TrimSpace '' aaaa '') = ''AAAA''" by (simp add: text_simps)
  have m: "To4 mapped_v4 = Some [203, 0, 113, 5]" by (simp add: mapped_v4_def To4_def)
  have d: "To4 doc_v6 = None" by (simp add: doc_v6_def To4_def)
  have 1: "normalizeIP ''A'' mapped_v4 = Inr ''203.0.113.5''"
    by (simp add: normalizeIP_A[OF A] m) (simp add: IP_String_def To4_def digits.simps)
  have 2: "normalizeIP ''A'' doc_v6 = Inl (Plain ''IP provider returned non-IPv4 address for A record'')"
    using normalizeIP_address_family[of "''A''" doc_v6] A d by simp
  have 3: "normalizeIP '' aaaa '' mapped_v4 = Inl (Plain ''IP provider returned IPv4 address for AAAA record'')"
    using normalizeIP_address_family[of "'' aaaa ''" mapped_v4] B m by simp
  have 4: "normalizeIP '' aaaa '' doc_v6 = Inr ''2001:db8::1''"
    by (simp add: normalizeIP_AAAA[OF B] d)
       (simp add: doc_v6_def To4_def IP_String_def string6_def zeroRun_def upt_rec Let_def digits.simps)
  from A B m d 1 2 3 4 show ?thesis by simp
qed

section \<open>The reconciler\<close>

lemma tried_calls2:
  "tried c w k w1 \<Longrightarrow> calls w2 = calls w1 @ xs \<Longrightarrow> new_calls w w2 = replicate k c @ xs"
  by (simp add: tried_def new_calls_def)

lemma stepped_calls: "stepped c w k w' \<Longrightarrow> calls w' = calls w @ replicate k c"
  by (simp add: stepped_def)

lemma ensureTTL_post:
  assumes run: "ensureTTL cfg zn rs ttl w = (r, w')"
    and pres: "rrsets w (rrkey rs) = Some (t1, vs1)"
  shows "\<exists>n t'. calls w' = calls w @ replicate n (CallChangeRRSetTTL rs ttl) \<and>
           rrsets w' = (rrsets w)(rrkey rs \<mapsto> (t', vs1)) \<and>
           (n = 0 \<longleftrightarrow> ttl = None \<or> rr_TTL rs = ttl) \<and>
           (r = None \<and> ttl \<noteq> None \<and> rr_TTL rs \<noteq> ttl \<longrightarrow> t' = ttl) \<and>
           (r \<noteq> None \<or> ttl = None \<or> rr_TTL rs = ttl \<longrightarrow> t' = t1)"
  using run
proof (cases rule: ensureTTL_cases)
  case nothing
  with pres show ?thesis
    by (intro exI[of _ 0] exI[of _ t1]) (auto simp: fun_upd_idem)
next
  case (changed t j)
  with pres show ?thesis
    by (intro exI[of _ "Suc j"] exI[of _ ttl]) (auto dest: stepped_calls)
next
  case (change_failed t j)
  with pres show ?thesis
    by (intro exI[of _ "Suc j"] exI[of _ t1]) (auto dest: stepped_calls simp: fun_upd_idem)
qed

lemma not_mutation_simps [simp]:
  "\<not> is_value_mutation (CallGetRRSet z n T)" "\<not> is_value_mutation (CallChangeRRSetTTL rs ttl)"
  "\<not> is_ttl_change (CallGetRRSet z n T)" "\<not> is_ttl_change (CallCreateRRSet z n T ttl vs)"
  "\<not> is_ttl_change (CallAddRRSetRecords rs vs ttl)" "\<not> is_ttl_change (CallSetRRSetRecords rs vs)"
  by simp_all


lemmas run_simps =
  updateRecord_def ensureTTL_def withRetry_def withTimeout_def retry_def retry_loop.simps
  getRRSet_op_def createRRSet_op_def addRecords_op_def setRecords_op_def changeTTL_op_def
  GetRRSetByNameAndType_def CreateRRSet_def AddRRSetRecords_def SetRRSetRecords_def
  ChangeRRSetTTL_def begin_call_def ctx_wait_def wait_on_def rrsetHasValue_def rrkey_def
  new_calls_def Let_def world1_def vpn_only_def vpn_rrset_def zone1_def cfg1_def next_delay_def wrap64_def

lemma A_simp: "ToUpper (TrimSpace ''A'') = ''A''" by (simp add: text_simps)







text \<open>
  Claim C2, as amended. The TTL reconciliation step compares the resolved TTL with the
  TTL of the record set as read by the lookup at the start of the reconciliation,
  before any value mutation; the record set is not read again. A TTL-change call is
  attempted only when the resolved TTL is non-null, the record set existed at the lookup
  and its TTL then differed from the resolved one (so never when the resolved TTL is
  null, and never after a create, which carries the TTL itself); every such attempt
  carries the resolved TTL; and in a reconciliation that completes without error the
  call is made whenever those conditions hold.
\<close>

theorem ttl_change_decided_on_lookup:
  assumes run: "updateRecord cfg zone rt name ip ttl w = (r, w')"
  shows "((\<exists>c \<in> set (new_calls w w'). is_ttl_change c) \<longrightarrow>
            (\<exists>t t0 vs. ttl = Some t \<and>
               rrsets w (zone, name, ToUpper (TrimSpace rt)) = Some (t0, vs) \<and> t0 \<noteq> Some t \<and>
               (\<forall>c \<in> set (new_calls w w'). is_ttl_change c \<longrightarrow>
                  c = CallChangeRRSetTTL \<lparr>rr_Zone = zone, rr_Name = name,
                        rr_Type = ToUpper (TrimSpace rt), rr_TTL = t0, rr_Records = vs\<rparr> ttl))) \<and>
         (r = None \<longrightarrow>
            (\<forall>t t0 vs. ttl = Some t \<and>
               rrsets w (zone, name, ToUpper (TrimSpace rt)) = Some (t0, vs) \<and> t0 \<noteq> Some t \<longrightarrow>
               CallChangeRRSetTTL \<lparr>rr_Zone = zone, rr_Name = name,
                   rr_Type = ToUpper (TrimSpace rt), rr_TTL = t0, rr_Records = vs\<rparr> ttl
                 \<in> set (new_calls w w')))"
  using run
proof (cases rule: updateRecord_cases)
  case (lookup_failed k)
  then show ?thesis by (auto simp: tried_def new_calls_def)
next
  case (create k w1 j)
  from tried_calls2[OF create(1) stepped_calls[OF create(3)]] create(2)
  show ?thesis by auto
next
  case (keep k w1 t0 vs rs)
  have p1: "rrsets w1 (rrkey rs) = Some (t0, vs)"
    using keep(1,2,3) by (simp add: tried_def rrkey_def)
  from ensureTTL_post[OF keep(6) p1] obtain n t' where
    c: "calls w' = calls w1 @ replicate n (CallChangeRRSetTTL rs ttl)" and
    n: "n = 0 \<longleftrightarrow> ttl = None \<or> rr_TTL rs = ttl" by blast
  have tt: "rr_TTL rs = t0" by (simp add: keep(3))
  from tried_calls2[OF keep(1) c] n tt keep(2,3) show ?thesis by (cases n) auto
next
  case (append_failed k w1 t0 vs rs j)
  from tried_calls2[OF append_failed(1) stepped_calls[OF append_failed(8)]] append_failed(7)
  show ?thesis by auto
next
  case (append k w1 t0 vs rs j w2)
  have p2: "rrsets w2 (rrkey rs) = Some (case ttl of None \<Rightarrow> t0 | Some n \<Rightarrow> Some n, vs @ [ip])"
    using append(8,3) by (simp add: rrkey_def)
  from ensureTTL_post[OF append(9) p2] obtain n t' where
    c: "calls w' = calls w2 @ replicate n (CallChangeRRSetTTL rs ttl)" and
    n: "n = 0 \<longleftrightarrow> ttl = None \<or> rr_TTL rs = ttl" by blast
  have c2: "calls w' = calls w1 @ replicate (Suc j) (CallAddRRSetRecords rs [ip] ttl) @
                replicate n (CallChangeRRSetTTL rs ttl)"
    using c stepped_calls[OF append(7)] by simp
  have tt: "rr_TTL rs = t0" by (simp add: append(3))
  from tried_calls2[OF append(1) c2] n tt append(2,3) show ?thesis by (cases n) auto
next
  case (replace_failed k w1 t0 vs rs j)
  from tried_calls2[OF replace_failed(1) stepped_calls[OF replace_failed(7)]] replace_failed(6)
  show ?thesis by auto
next
  case (replace k w1 t0 vs rs j w2)
  have p2: "rrsets w2 (rrkey rs) = Some (t0, [ip])"
    using replace(7,3) by (simp add: rrkey_def)
  from ensureTTL_post[OF replace(8) p2] obtain n t' where
    c: "calls w' = calls w2 @ replicate n (CallChangeRRSetTTL rs ttl)" and
    n: "n = 0 \<longleftrightarrow> ttl = None \<or> rr_TTL rs = ttl" by blast
  have c2: "calls w' = calls w1 @ replicate (Suc j) (CallSetRRSetRecords rs [ip]) @
              replicate n (CallChangeRRSetTTL rs ttl)"
    using c stepped_calls[OF replace(6)] by simp
  have tt: "rr_TTL rs = t0" by (simp add: replace(3))
  from tried_calls2[OF replace(1) c2] n tt replace(2,3) show ?thesis by (cases n) auto
qed

theorem ttl_change_decided_on_lookup_witness:
  "rrsets (world1 (Some (Some 60, [''203.0.113.5''])) []) (zone1, ''vpn'', ToUpper (TrimSpace ''A'')) =
     Some (Some 60, [''203.0.113.5'']) \<and>
   fst (updateRecord (cfg1 True) zone1 ''A'' ''vpn'' ''203.0.113.5'' (Some 300)
          (world1 (Some (Some 60, [''203.0.113.5''])) [])) = None \<and>
   new_calls (world1 (Some (Some 60, [''203.0.113.5''])) [])
     (snd (updateRecord (cfg1 True) zone1 ''A'' ''vpn'' ''203.0.113.5'' (Some 300)
          (world1 (Some (Some 60, [''203.0.113.5''])) []))) =
     [CallGetRRSet zone1 ''vpn'' ''A'',
      CallChangeRRSetTTL (vpn_rrset (Some 60) [''203.0.113.5'']) (Some 300)] \<and>
   CallChangeRRSetTTL (vpn_rrset (Some 60) [''203.0.113.5'']) (Some 300) \<in>
     set (new_calls (world1 (Some (Some 60, [''203.0.113.5''])) [])
     (snd (updateRecord (cfg1 True) zone1 ''A'' ''vpn'' ''203.0.113.5'' (Some 300)
          (world1 (Some (Some 60, [''203.0.113.5''])) []))))"
proof -
  let ?w = "world1 (Some (Some 60, [''203.0.113.5''])) []"
  let ?run = "updateRecord (cfg1 True) zone1 ''A'' ''vpn'' ''203.0.113.5'' (Some 300) ?w"
  have p: "rrsets ?w (zone1, ''vpn'', ToUpper (TrimSpace ''A'')) = Some (Some 60, [''203.0.113.5''])"
    by (simp add: A_simp world1_def vpn_only_def)
  have ok: "fst ?run = None" by (simp add: run_simps A_simp text_simps)
  have ne: "Some (60::int) \<noteq> Some 300" by simp
  from ttl_change_decided_on_lookup[OF surjective_pairing, where cfg="cfg1 True" and zone=zone1
      and rt="''A''" and name="''vpn''" and ip="''203.0.113.5''" and ttl="Some 300" and w="?w"] ok p ne
  have m: "CallChangeRRSetTTL \<lparr>rr_Zone = zone1, rr_Name = ''vpn'',
                   rr_Type = ToUpper (TrimSpace ''A''), rr_TTL = Some 60, rr_Records = [''203.0.113.5'']\<rparr>
             (Some 300) \<in> set (new_calls ?w (snd ?run))" by blast
  have c: "new_calls ?w (snd ?run) = [CallGetRRSet zone1 ''vpn'' ''A'',
      CallChangeRRSetTTL (vpn_rrset (Some 60) [''203.0.113.5'']) (Some 300)]"
    by (simp add: run_simps A_simp text_simps)
  from p ok m c show ?thesis by (simp add: A_simp vpn_rrset_def)
qed

text \<open>
  Claim C2 as stated fails after an append. The record set has TTL 60 and two values,
  the resolved TTL is 300 and records are preserved. The append carries the TTL, so the
  remote TTL read after it would be 300, equal to the resolved TTL; a TTL-change call is
  made all the same, because the comparison uses the TTL 60 of the lookup.
\<close>

theorem ttl_reread_counterexample:
  "new_calls (world1 (Some (Some 60, [''198.51.100.9'', ''192.0.2.7''])) [])
     (snd (updateRecord (cfg1 True) zone1 ''A'' ''vpn'' ''203.0.113.5'' (Some 300)
          (world1 (Some (Some 60, [''198.51.100.9'', ''192.0.2.7''])) []))) =
     [CallGetRRSet zone1 ''vpn'' ''A'',
      CallAddRRSetRecords (vpn_rrset (Some 60) [''198.51.100.9'', ''192.0.2.7'']) [''203.0.113.5''] (Some 300),
      CallChangeRRSetTTL (vpn_rrset (Some 60) [''198.51.100.9'', ''192.0.2.7'']) (Some 300)] \<and>
   rrsets (snd (AddRRSetRecords (vpn_rrset (Some 60) [''198.51.100.9'', ''192.0.2.7''])
                  [''203.0.113.5''] (Some 300)
                  (world1 (Some (Some 60, [''198.51.100.9'', ''192.0.2.7''])) [])))
      (zone1, ''vpn'', ''A'') = Some (Some 300, [''198.51.100.9'', ''192.0.2.7'', ''203.0.113.5''])"
  by (simp add: run_simps A_simp text_simps)

section \<open>Idempotence\<close>
















section \<open>The sync cycle and the scheduler\<close>






























section \<open>Which operations are retried\<close>























end
